theory Spec2Isabelle
  imports Main "HOL-Library.Word"
begin

section \<open>Machine integers\<close>

type_synonym u8 = "8 word"
type_synonym u32 = "32 word"
type_synonym u64 = "64 word"

section \<open>The Volume collaborator\<close>

text \<open>
  Modelled from the spec: the medium flavours of DiscIO/Enums.h, which is not part of
  DiscExtractor.cpp. The source names only \<open>Platform::WII_DISC\<close> (the flavour with
  offset-shifted addressing) and asks \<open>IsDisc\<close> of a flavour; \<open>IsDisc\<close> itself is declared
  elsewhere, so every function below that calls it takes it as its first argument.
\<close>

datatype Platform = GAMECUBE_DISC | WII_DISC | WII_WAD | ELF_DOL

text \<open>
  Modelled from the spec: the Volume of DiscIO/Volume.h, "raw, byte-addressable disc
  image", read-only and partition-aware. \<open>content\<close> is the byte stored at each
  partition-relative address, \<open>readable\<close> says whether a read of a given length at a given
  address succeeds. The partition is an opaque identifier: a type variable.
\<close>

record 'p Volume =
  GetVolumeType :: Platform
  content :: "'p \<Rightarrow> u64 \<Rightarrow> u8"
  readable :: "'p \<Rightarrow> u64 \<Rightarrow> u64 \<Rightarrow> bool"

text \<open>The bytes of the Volume at the partition-relative addresses \<open>[offset, offset + len)\<close>.\<close>

definition volume_bytes :: "'p Volume \<Rightarrow> 'p \<Rightarrow> u64 \<Rightarrow> u64 \<Rightarrow> u8 list" where
  "volume_bytes volume part offset len =
     map (\<lambda>i. content volume part (offset + of_nat i)) [0..<unat len]"

text \<open>
  Modelled from the spec: \<open>read(offset, length, buffer, partition) -> bool\<close>. A successful
  read yields the bytes that it stores into the caller's buffer; a failed read is \<open>None\<close>.
\<close>

definition Read :: "'p Volume \<Rightarrow> u64 \<Rightarrow> u64 \<Rightarrow> 'p \<Rightarrow> u8 list option" where
  "Read volume offset len part =
     (if readable volume part offset len
      then Some (volume_bytes volume part offset len) else None)"

text \<open>The value of a byte sequence read as one big-endian unsigned number.\<close>

definition FromBigEndian :: "u8 list \<Rightarrow> u32" where
  "FromBigEndian bs = foldl (\<lambda>acc b. acc * 256 + ucast b) 0 bs"

text \<open>
  Modelled from the spec: \<open>read_typed<T>(offset, partition) -> optional<T>\<close> at \<open>T = u32\<close>,
  a 4-byte read whose bytes are taken as a big-endian value.
\<close>

definition ReadSwapped_u32 :: "'p Volume \<Rightarrow> u64 \<Rightarrow> 'p \<Rightarrow> u32 option" where
  "ReadSwapped_u32 volume offset part =
     (case Read volume offset 4 part of
        None \<Rightarrow> None
      | Some bs \<Rightarrow> Some (FromBigEndian bs))"

section \<open>Boot Metadata Locator\<close>

definition GetBootDOLOffset :: "(Platform \<Rightarrow> bool) \<Rightarrow> 'p Volume \<Rightarrow> 'p \<Rightarrow> u64 option" where
  "GetBootDOLOffset IsDisc volume part =
     (let volume_type = GetVolumeType volume in
      if \<not> IsDisc volume_type then None
      else
        let offset = ReadSwapped_u32 volume 0x420 part;
            offset_shift = (if volume_type = WII_DISC then 2 else 0 :: nat)
        in case offset of
             Some v \<Rightarrow> Some (push_bit offset_shift (ucast v :: u64))
           | None \<Rightarrow> None)"

text \<open>
  One of the two segment loops of \<open>GetBootDOLSize\<close>: for each index \<open>i\<close> it reads the
  offset field at \<open>dol_offset + offset_field + i * 4\<close> and the size field at
  \<open>dol_offset + size_field + i * 4\<close>, gives up when either read fails, and otherwise
  keeps the larger of \<open>*offset + *size\<close> (added as \<open>u32\<close>) and the running \<open>dol_size\<close>.
\<close>

fun segment_loop ::
  "'p Volume \<Rightarrow> 'p \<Rightarrow> u64 \<Rightarrow> u64 \<Rightarrow> u64 \<Rightarrow> nat list \<Rightarrow> u32 \<Rightarrow> u32 option" where
  "segment_loop volume part dol_offset offset_field size_field [] dol_size = Some dol_size"
| "segment_loop volume part dol_offset offset_field size_field (i # is) dol_size =
     (let offset = ReadSwapped_u32 volume (dol_offset + offset_field + of_nat i * 4) part;
          size = ReadSwapped_u32 volume (dol_offset + size_field + of_nat i * 4) part
      in case (offset, size) of
           (Some off, Some sz) \<Rightarrow>
             segment_loop volume part dol_offset offset_field size_field is
               (max (off + sz) dol_size)
         | _ \<Rightarrow> None)"

definition GetBootDOLSize :: "(Platform \<Rightarrow> bool) \<Rightarrow> 'p Volume \<Rightarrow> 'p \<Rightarrow> u64 \<Rightarrow> u32 option" where
  "GetBootDOLSize IsDisc volume part dol_offset =
     (if \<not> IsDisc (GetVolumeType volume) then None
      else
        \<comment> \<open>Iterate through the 7 code segments\<close>
        case segment_loop volume part dol_offset 0x00 0x90 [0..<7] 0 of
          None \<Rightarrow> None
        | Some dol_size \<Rightarrow>
            \<comment> \<open>Iterate through the 11 data segments\<close>
            segment_loop volume part dol_offset 0x1c 0xac [0..<11] dol_size)"

section \<open>The FileInfo collaborator\<close>

text \<open>
  Modelled from the spec: the FileInfo node of DiscIO/Filesystem.h, "one entry in the
  disc's directory tree" with a name, a byte offset within the partition (unsigned
  64-bit), a size in bytes (unsigned 64-bit), a kind (directory or file) and, for the
  range-based \<open>for\<close> over a directory, its children in the tree's native order. The
  source's debug line prints the size with a 32-bit format; every such size is a value
  of the 64-bit type used here, and the functions below widen it to 64 bits at once.
\<close>

datatype FileInfo =
  FileInfo (GetName: string) (GetOffset: u64) (GetSize: u64) (IsDirectory: bool)
    (children: "FileInfo list")

section \<open>File Reader\<close>

text \<open>
  \<open>file_info\<close> is a pointer in the source: \<open>None\<close> is the null pointer. The caller's buffer
  is passed in and returned; a successful \<open>volume.Read\<close> stores its bytes at the front of
  it. What a failed read leaves in the buffer is not decided in this file: the model
  leaves it as it was.
\<close>

definition ReadFile ::
  "'p Volume \<Rightarrow> 'p \<Rightarrow> FileInfo option \<Rightarrow> u8 list \<Rightarrow> u64 \<Rightarrow> u64 \<Rightarrow> u64 \<times> u8 list" where
  "ReadFile volume part file_info buffer max_buffer_size offset_in_file =
     (case file_info of
        None \<Rightarrow> (0, buffer)
      | Some fi \<Rightarrow>
          if IsDirectory fi \<or> offset_in_file \<ge> GetSize fi then (0, buffer)
          else
            let read_length = min max_buffer_size (GetSize fi - offset_in_file) in
            case Read volume (GetOffset fi + offset_in_file) read_length part of
              None \<Rightarrow> (0, buffer)
            | Some bytes \<Rightarrow> (read_length, bytes @ drop (length bytes) buffer))"

section \<open>The host filesystem\<close>

text \<open>
  What the exporters do to their collaborators, in order: calls of the progress callback
  with their answers, directory creation, opening of a destination file, the bulk
  exporter's Volume reads (offset, length), writes to the destination (byte count), and
  the notice and error log lines. The flag of an event says whether the call succeeded
  (for \<open>Reported\<close>: what the callback answered).
\<close>

datatype event =
    Reported string bool
  | MadePath string
  | Opened string bool
  | VolumeRead u64 u64 bool
  | Wrote string nat bool
  | NoticeLog string
  | ErrorLog string

text \<open>
  Modelled from the spec: the host side (Common/FileUtil.h, File::IOFile), which is not
  part of DiscExtractor.cpp. \<open>files\<close> maps the path of each host file to its content,
  \<open>dirs\<close> is the set of host directories, \<open>open_ok\<close> says whether a file can be opened
  for writing at a path, \<open>write_ok path old data\<close> whether appending \<open>data\<close> to the file
  that holds \<open>old\<close> succeeds, and \<open>trace\<close> is the history of events so far.
\<close>

record Host =
  files :: "string \<rightharpoonup> u8 list"
  dirs :: "string set"
  open_ok :: "string \<Rightarrow> bool"
  write_ok :: "string \<Rightarrow> u8 list \<Rightarrow> u8 list \<Rightarrow> bool"
  trace :: "event list"

definition log_event :: "event \<Rightarrow> Host \<Rightarrow> Host" where
  "log_event e h = h\<lparr>trace := trace h @ [e]\<rparr>"

text \<open>
  Modelled from the spec: \<open>File::IOFile f(export_filename, "wb")\<close>, "opens the destination
  for exclusive binary writing", creating the file or emptying the one that is there.
\<close>

definition IOFile_open :: "string \<Rightarrow> Host \<Rightarrow> bool \<times> Host" where
  "IOFile_open path h =
     (if open_ok h path
      then (True, log_event (Opened path True) (h\<lparr>files := (files h)(path \<mapsto> [])\<rparr>))
      else (False, log_event (Opened path False) h))"

text \<open>
  Modelled from the spec: \<open>f.WriteBytes(data, length)\<close> appends the chunk to the file; a
  failed write adds nothing to it.
\<close>

definition WriteBytes :: "string \<Rightarrow> u8 list \<Rightarrow> Host \<Rightarrow> bool \<times> Host" where
  "WriteBytes path data h =
     (let old = (case files h path of None \<Rightarrow> [] | Some c \<Rightarrow> c) in
      if write_ok h path old data
      then (True, log_event (Wrote path (length data) True) (h\<lparr>files := (files h)(path \<mapsto> old @ data)\<rparr>))
      else (False, log_event (Wrote path (length data) False) h))"

text \<open>Modelled from the spec: \<open>File::Exists\<close>, "a host file already exists at the export path".\<close>

definition Exists :: "string \<Rightarrow> Host \<Rightarrow> bool" where
  "Exists path h = (files h path \<noteq> None)"

text \<open>Every prefix of a path that ends in the directory separator.\<close>

fun sub_paths :: "string \<Rightarrow> string \<Rightarrow> string list" where
  "sub_paths seen [] = []"
| "sub_paths seen (c # cs) =
     (if c = CHR ''/'' then (seen @ [c]) # sub_paths (seen @ [c]) cs
      else sub_paths (seen @ [c]) cs)"

text \<open>
  Modelled from the spec: \<open>File::CreateFullPath\<close>, "ensures \<open>export_folder\<close> exists
  (creating intermediate directories)". It touches no file.
\<close>

definition CreateFullPath :: "string \<Rightarrow> Host \<Rightarrow> Host" where
  "CreateFullPath fullPath h =
     log_event (MadePath fullPath) (h\<lparr>dirs := dirs h \<union> set (sub_paths [] fullPath)\<rparr>)"

section \<open>Bulk Data Exporter\<close>

text \<open>
  The \<open>while (size)\<close> loop of \<open>ExportData\<close>, with the file \<open>f\<close> already open at
  \<open>export_filename\<close>. Its \<open>sz\<close> is the source's \<open>size\<close>; it ends because every round takes
  a non-empty chunk off it.
\<close>

function ExportData_loop ::
  "'p Volume \<Rightarrow> 'p \<Rightarrow> string \<Rightarrow> u64 \<Rightarrow> u64 \<Rightarrow> Host \<Rightarrow> bool \<times> Host" where
  "ExportData_loop volume part export_filename offset sz h =
     (if sz = 0 then (True, h)
      else
        \<comment> \<open>Limit read size to 128 MB\<close>
        let read_size = min sz 0x08000000 in
        case Read volume offset read_size part of
          None \<Rightarrow> (False, log_event (VolumeRead offset read_size False) h)
        | Some buffer \<Rightarrow>
            (case WriteBytes export_filename buffer
                    (log_event (VolumeRead offset read_size True) h) of
               (False, h') \<Rightarrow> (False, h')
             | (True, h') \<Rightarrow>
                 ExportData_loop volume part export_filename
                   (offset + read_size) (sz - read_size) h'))"
  by pat_completeness auto
termination
proof (relation "measure (\<lambda>(volume, part, export_filename, offset, sz, h). unat sz)")
  show "wf (measure (\<lambda>(volume :: 'p Volume, part :: 'p, export_filename :: string,
      offset :: u64, sz :: u64, h :: Host). unat sz))"
    by simp
next
  fix volume :: "'p Volume" and part :: 'p and export_filename :: string
    and offset sz read_size :: u64 and h :: Host
  assume nz: "sz \<noteq> 0" and rs: "read_size = min sz 0x08000000"
  have "read_size \<noteq> 0" using nz rs by (auto simp: min_def)
  moreover have "read_size \<le> sz" using rs by simp
  ultimately have "unat (sz - read_size) < unat sz"
    by (simp add: unat_sub word_le_nat_alt unat_gt_0 [symmetric] unat_eq_zero)
  then show "((volume, part, export_filename, offset + read_size, sz - read_size, h'),
        (volume, part, export_filename, offset, sz, h)) \<in>
       measure (\<lambda>(volume, part, export_filename, offset, sz, h). unat sz)" for h' 
    by simp
qed

definition ExportData ::
  "'p Volume \<Rightarrow> 'p \<Rightarrow> u64 \<Rightarrow> u64 \<Rightarrow> string \<Rightarrow> Host \<Rightarrow> bool \<times> Host" where
  "ExportData volume part offset sz export_filename h =
     (case IOFile_open export_filename h of
        (False, h') \<Rightarrow> (False, h')
      | (True, h') \<Rightarrow> ExportData_loop volume part export_filename offset sz h')"

declare ExportData_loop.simps [simp del]

section \<open>File Exporter\<close>

definition ExportFile ::
  "'p Volume \<Rightarrow> 'p \<Rightarrow> FileInfo option \<Rightarrow> string \<Rightarrow> Host \<Rightarrow> bool \<times> Host" where
  "ExportFile volume part file_info export_filename h =
     (case file_info of
        None \<Rightarrow> (False, h)
      | Some fi \<Rightarrow>
          if IsDirectory fi then (False, h)
          else ExportData volume part (GetOffset fi) (GetSize fi) export_filename h)"

section \<open>Directory Exporter\<close>

text \<open>
  The progress callback \<open>update_progress\<close> is any function object: its answer may depend
  on everything that has happened so far, so the model hands it the trace next to the
  path. \<open>ExportDirectory_loop\<close> is the range-based \<open>for\<close> over the children that are still
  to be visited; its \<open>return\<close> on cancellation ends the enclosing \<open>ExportDirectory\<close> call,
  which returns nothing to its caller.
\<close>

function ExportDirectory ::
  "'p Volume \<Rightarrow> 'p \<Rightarrow> FileInfo \<Rightarrow> bool \<Rightarrow> string \<Rightarrow> string \<Rightarrow>
     (event list \<Rightarrow> string \<Rightarrow> bool) \<Rightarrow> Host \<Rightarrow> Host"
and ExportDirectory_loop ::
  "'p Volume \<Rightarrow> 'p \<Rightarrow> FileInfo list \<Rightarrow> bool \<Rightarrow> string \<Rightarrow> string \<Rightarrow>
     (event list \<Rightarrow> string \<Rightarrow> bool) \<Rightarrow> Host \<Rightarrow> Host"
where
  "ExportDirectory volume part (FileInfo dir_name dir_offset dir_size is_dir entries) recursive
       filesystem_path export_folder update_progress h =
     ExportDirectory_loop volume part entries recursive filesystem_path export_folder
       update_progress (CreateFullPath (export_folder @ ''/'') h)"
| "ExportDirectory_loop volume part [] recursive filesystem_path export_folder
       update_progress h = h"
| "ExportDirectory_loop volume part (file_info # rest) recursive filesystem_path export_folder
       update_progress h =
     (let name = GetName file_info @ (if IsDirectory file_info then ''/'' else []);
          path = filesystem_path @ name;
          export_path = export_folder @ ''/'' @ name;
          cancel = update_progress (trace h) path;
          h1 = log_event (Reported path cancel) h
      in if cancel then h1
         else
           ExportDirectory_loop volume part rest recursive filesystem_path export_folder
             update_progress
             (if \<not> IsDirectory file_info then
                (if Exists export_path h1
                 then log_event (NoticeLog (export_path @ '' already exists'')) h1
                 else
                   case ExportFile volume part (Some file_info) export_path h1 of
                     (False, h2) \<Rightarrow> log_event (ErrorLog (''Could not export '' @ export_path)) h2
                   | (True, h2) \<Rightarrow> h2)
              else if recursive then
                ExportDirectory volume part file_info recursive path export_path
                  update_progress h1
              else h1))"
  by pat_completeness auto
termination
  by (relation "measure (\<lambda>x. case x of
        Inl (volume, part, directory, rest) \<Rightarrow> size directory
      | Inr (volume, part, entries, rest) \<Rightarrow> size_list size entries)") auto

section \<open>System Data Exporter\<close>

definition ExportApploader ::
  "(Platform \<Rightarrow> bool) \<Rightarrow> 'p Volume \<Rightarrow> 'p \<Rightarrow> string \<Rightarrow> Host \<Rightarrow> bool \<times> Host" where
  "ExportApploader IsDisc volume part export_filename h =
     (if \<not> IsDisc (GetVolumeType volume) then (False, h)
      else
        let apploader_size = ReadSwapped_u32 volume (0x2440 + 0x14) part;
            trailer_size = ReadSwapped_u32 volume (0x2440 + 0x18) part;
            header_size = 0x20 :: u32
        in case (apploader_size, trailer_size) of
             (Some a, Some t) \<Rightarrow>
               ExportData volume part 0x2440 (ucast (a + (t + header_size))) export_filename h
           | _ \<Rightarrow> (False, h))"

definition ExportDOL ::
  "(Platform \<Rightarrow> bool) \<Rightarrow> 'p Volume \<Rightarrow> 'p \<Rightarrow> string \<Rightarrow> Host \<Rightarrow> bool \<times> Host" where
  "ExportDOL IsDisc volume part export_filename h =
     (if \<not> IsDisc (GetVolumeType volume) then (False, h)
      else
        case GetBootDOLOffset IsDisc volume part of
          None \<Rightarrow> (False, h)
        | Some dol_offset \<Rightarrow>
            (case GetBootDOLSize IsDisc volume part dol_offset of
               None \<Rightarrow> (False, h)
             | Some dol_size \<Rightarrow>
                 ExportData volume part dol_offset (ucast dol_size) export_filename h))"

definition ExportSystemData ::
  "(Platform \<Rightarrow> bool) \<Rightarrow> 'p Volume \<Rightarrow> 'p \<Rightarrow> string \<Rightarrow> Host \<Rightarrow> bool \<times> Host" where
  "ExportSystemData IsDisc volume part export_folder h =
     (let success = True;
          (apploader_ok, h1) =
            ExportApploader IsDisc volume part (export_folder @ ''/apploader.img'') h;
          success = (success \<and> apploader_ok);
          (dol_ok, h2) = ExportDOL IsDisc volume part (export_folder @ ''/boot.dol'') h1;
          success = (success \<and> dol_ok)
      in (success, h2))"

section \<open>Notions used by the statements\<close>

text \<open>
  The 4-byte big-endian number stored in the Volume at address \<open>a\<close>, as a natural
  number: the first byte is the most significant.
\<close>

definition big_endian_u32_at :: "'p Volume \<Rightarrow> 'p \<Rightarrow> u64 \<Rightarrow> nat" where
  "big_endian_u32_at volume part a =
     16777216 * unat (content volume part a) + 65536 * unat (content volume part (a + 1))
     + 256 * unat (content volume part (a + 2)) + unat (content volume part (a + 3))"

text \<open>
  The addresses of the (offset field, size field) pairs of the 18 segment descriptors of
  an executable header at \<open>dol_offset\<close>: 7 code descriptors with offset fields from
  \<open>+0x00\<close> and size fields from \<open>+0x90\<close>, then 11 data descriptors with offset fields from
  \<open>+0x1C\<close> and size fields from \<open>+0xAC\<close>, 4 bytes apart.
\<close>

definition segment_fields :: "u64 \<Rightarrow> (u64 \<times> u64) list" where
  "segment_fields dol_offset =
     map (\<lambda>i. (dol_offset + 0x00 + of_nat i * 4, dol_offset + 0x90 + of_nat i * 4)) [0..<7] @
     map (\<lambda>i. (dol_offset + 0x1c + of_nat i * 4, dol_offset + 0xac + of_nat i * 4)) [0..<11]"

text \<open>Segment offset plus segment size of each descriptor, as natural numbers (no wrap-around).\<close>

definition segment_ends :: "'p Volume \<Rightarrow> 'p \<Rightarrow> u64 \<Rightarrow> nat list" where
  "segment_ends volume part dol_offset =
     map (\<lambda>(a, b). big_endian_u32_at volume part a + big_endian_u32_at volume part b)
       (segment_fields dol_offset)"

text \<open>The same sum as the source computes it: in \<open>u32\<close>.\<close>

definition wrapped_end :: "'p Volume \<Rightarrow> 'p \<Rightarrow> u64 \<times> u64 \<Rightarrow> u32" where
  "wrapped_end volume part ab =
     of_nat (big_endian_u32_at volume part (fst ab)) + of_nat (big_endian_u32_at volume part (snd ab))"

section \<open>Example inputs\<close>

text \<open>An \<open>IsDisc\<close> under which the two disc flavours are disc-type and the others are not.\<close>

definition example_IsDisc :: "Platform \<Rightarrow> bool" where
  "example_IsDisc p = (p = GAMECUBE_DISC \<or> p = WII_DISC)"

text \<open>
  A disc whose executable header at 0 has one data descriptor with offset \<open>0x100\<close> and size
  \<open>0x50\<close> and zeros elsewhere.
\<close>

definition example_dol :: "unit Volume" where
  "example_dol = \<lparr>GetVolumeType = GAMECUBE_DISC,
     content = (\<lambda>_ a. if a = 0x1e then 1 else if a = 0xaf then 0x50 else 0),
     readable = (\<lambda>_ _ _. True)\<rparr>"

text \<open>
  A disc whose first code descriptor has offset \<open>0xFFFFFFFF\<close> and size \<open>2\<close>, zeros
  elsewhere.
\<close>

definition overflow_dol :: "unit Volume" where
  "overflow_dol = \<lparr>GetVolumeType = GAMECUBE_DISC,
     content = (\<lambda>_ a. if a < 4 then 0xFF else if a = 0x93 then 2 else 0),
     readable = (\<lambda>_ _ _. True)\<rparr>"

text \<open>A Wii disc whose boot header holds the raw value \<open>0x00010000\<close> at \<open>0x420\<close>.\<close>

definition example_wii :: "unit Volume" where
  "example_wii = \<lparr>GetVolumeType = WII_DISC,
     content = (\<lambda>_ a. if a = 0x421 then 1 else 0),
     readable = (\<lambda>_ _ _. True)\<rparr>"

text \<open>A disc on which every read succeeds and whose byte at address \<open>a\<close> is \<open>a mod 256\<close>.\<close>

definition example_volume :: "unit Volume" where
  "example_volume = \<lparr>GetVolumeType = GAMECUBE_DISC,
     content = (\<lambda>_ a. ucast a),
     readable = (\<lambda>_ _ _. True)\<rparr>"

text \<open>A 5-byte file stored from address \<open>0x10\<close>.\<close>

definition example_file :: FileInfo where
  "example_file = FileInfo ''a.bin'' 0x10 5 False []"

section \<open>Notions used by the statements on the bulk exporter\<close>

text \<open>The chunk cap of the bulk exporter, 128 MiB, as a natural number.\<close>

definition chunk_cap :: nat where
  "chunk_cap = 0x08000000"

text \<open>
  The lengths of the chunks into which a transfer of \<open>n\<close> bytes falls: full chunks of
  \<open>chunk_cap\<close> bytes, then the remainder when there is one.
\<close>

definition chunk_lengths :: "nat \<Rightarrow> nat list" where
  "chunk_lengths n =
     replicate (n div chunk_cap) chunk_cap @ (if n mod chunk_cap = 0 then [] else [n mod chunk_cap])"

text \<open>
  The events of chunks transferred without failure, from \<open>offset\<close> on: each chunk is one
  Volume read and one write of the same length, and the next chunk starts where it ends.
\<close>

fun transfer_events :: "string \<Rightarrow> u64 \<Rightarrow> nat list \<Rightarrow> event list" where
  "transfer_events path offset [] = []"
| "transfer_events path offset (n # ns) =
     VolumeRead offset (of_nat n) True # Wrote path n True #
       transfer_events path (offset + of_nat n) ns"

text \<open>
  The events of a chunk that fails: a failed read, or a successful read and a failed
  write. Nothing follows them.
\<close>

definition failure_events :: "'p Volume \<Rightarrow> 'p \<Rightarrow> string \<Rightarrow> u64 \<Rightarrow> u64 \<Rightarrow> event list" where
  "failure_events volume part path offset len =
     (if readable volume part offset len
      then [VolumeRead offset len True, Wrote path (unat len) False]
      else [VolumeRead offset len False])"

text \<open>
  Chunk number \<open>k\<close> (from 0) of the transfer of \<open>sz\<close> bytes from \<open>offset\<close> to the file at
  \<open>path\<close> that held \<open>old\<close> when the loop began: its Volume read succeeds and so does the
  write of its bytes after the chunks before it.
\<close>

definition chunk_ok :: "'p Volume \<Rightarrow> 'p \<Rightarrow> string \<Rightarrow> Host \<Rightarrow> u8 list \<Rightarrow> u64 \<Rightarrow> u64 \<Rightarrow> nat \<Rightarrow> bool" where
  "chunk_ok volume part path h old offset sz k =
     (let chunk_offset = offset + of_nat (k * chunk_cap);
          chunk_length = of_nat (min chunk_cap (unat sz - k * chunk_cap))
      in readable volume part chunk_offset chunk_length \<and>
         write_ok h path (old @ volume_bytes volume part offset (of_nat (k * chunk_cap)))
           (volume_bytes volume part chunk_offset chunk_length))"


text \<open>An empty host on which every open and every write succeeds.\<close>

definition example_host :: Host where
  "example_host = \<lparr>files = Map.empty, dirs = {}, open_ok = (\<lambda>_. True),
     write_ok = (\<lambda>_ _ _. True), trace = []\<rparr>"

text \<open>An empty host on which files open and every write fails.\<close>

definition write_fail_host :: Host where
  "write_fail_host = \<lparr>files = Map.empty, dirs = {}, open_ok = (\<lambda>_. True),
     write_ok = (\<lambda>_ _ _. False), trace = []\<rparr>"

text \<open>An empty host on which no file can be opened.\<close>

definition open_fail_host :: Host where
  "open_fail_host = \<lparr>files = Map.empty, dirs = {}, open_ok = (\<lambda>_. False),
     write_ok = (\<lambda>_ _ _. True), trace = []\<rparr>"

text \<open>A disc whose reads fail from address \<open>0x08000000\<close> on.\<close>

definition late_fail_volume :: "unit Volume" where
  "late_fail_volume = \<lparr>GetVolumeType = GAMECUBE_DISC,
     content = (\<lambda>_ a. ucast a),
     readable = (\<lambda>_ off _. off < 0x08000000)\<rparr>"

text \<open>
  A disc image of 100 bytes: a read succeeds exactly when it ends within the image.
\<close>

definition short_volume :: "unit Volume" where
  "short_volume = \<lparr>GetVolumeType = GAMECUBE_DISC,
     content = (\<lambda>_ a. ucast a),
     readable = (\<lambda>_ off len. unat off + unat len \<le> 100)\<rparr>"

text \<open>
  A disc with the executable header of \<open>example_dol\<close> whose read of the apploader size
  field fails.
\<close>

definition no_apploader_disc :: "unit Volume" where
  "no_apploader_disc = \<lparr>GetVolumeType = GAMECUBE_DISC,
     content = (\<lambda>_ a. if a = 0x1e then 1 else if a = 0xaf then 0x50 else 0),
     readable = (\<lambda>_ off _. off \<noteq> 0x2454)\<rparr>"

text \<open>A disc of zeros whose read of the boot executable offset at \<open>0x420\<close> fails.\<close>

definition no_dol_disc :: "unit Volume" where
  "no_dol_disc = \<lparr>GetVolumeType = GAMECUBE_DISC,
     content = (\<lambda>_ a. 0),
     readable = (\<lambda>_ off _. off \<noteq> 0x420)\<rparr>"


section \<open>Notions used by the statements on the directory exporter\<close>

text \<open>An event is a cancellation when it is a callback invocation that answered true.\<close>

fun is_cancel :: "event \<Rightarrow> bool" where
  "is_cancel (Reported path answer) = answer"
| "is_cancel _ = False"

text \<open>The callback invocations of a trace, in order: the path reported and the answer.\<close>

fun reports :: "event list \<Rightarrow> (string \<times> bool) list" where
  "reports [] = []"
| "reports (Reported path answer # es) = (path, answer) # reports es"
| "reports (_ # es) = reports es"

text \<open>The paths handed to \<open>File::CreateFullPath\<close> in a trace, in order.\<close>

fun made_paths :: "event list \<Rightarrow> string list" where
  "made_paths [] = []"
| "made_paths (MadePath path # es) = path # made_paths es"
| "made_paths (_ # es) = made_paths es"

text \<open>The events of the bulk exporter: opening, Volume reads and writes.\<close>

fun is_transfer :: "event \<Rightarrow> bool" where
  "is_transfer (Opened path ok) = True"
| "is_transfer (VolumeRead offset len ok) = True"
| "is_transfer (Wrote path n ok) = True"
| "is_transfer _ = False"

text \<open>What a call added to the trace: the events of \<open>h'\<close> after those of \<open>h\<close>.\<close>

definition new_events :: "Host \<Rightarrow> Host \<Rightarrow> event list" where
  "new_events h h' = drop (length (trace h)) (trace h')"

text \<open>The \<open>name\<close> of the loop body: the entry's name, with a trailing separator for a directory.\<close>

definition entry_name :: "FileInfo \<Rightarrow> string" where
  "entry_name file_info = GetName file_info @ (if IsDirectory file_info then ''/'' else [])"

text \<open>
  The loop body's branch for a child that is a file, from the state \<open>h1\<close> in which the
  callback has answered false.
\<close>

definition export_file_entry ::
  "'p Volume \<Rightarrow> 'p \<Rightarrow> FileInfo \<Rightarrow> string \<Rightarrow> Host \<Rightarrow> Host" where
  "export_file_entry volume part file_info export_path h1 =
     (if Exists export_path h1
      then log_event (NoticeLog (export_path @ '' already exists'')) h1
      else
        case ExportFile volume part (Some file_info) export_path h1 of
          (False, h2) \<Rightarrow> log_event (ErrorLog (''Could not export '' @ export_path)) h2
        | (True, h2) \<Rightarrow> h2)"

text \<open>
  The entries that a traversal visits when nothing cancels it, in the order of the visit:
  for each child its logical path, its export path and whether it is a directory, a
  directory being followed by the entries below it when \<open>recursive\<close> holds.
\<close>

fun walk :: "bool \<Rightarrow> string \<Rightarrow> string \<Rightarrow> FileInfo \<Rightarrow> (string \<times> string \<times> bool) list"
and walk_list :: "bool \<Rightarrow> string \<Rightarrow> string \<Rightarrow> FileInfo list \<Rightarrow> (string \<times> string \<times> bool) list"
where
  "walk recursive filesystem_path export_folder (FileInfo dir_name dir_offset dir_size is_dir entries) =
     walk_list recursive filesystem_path export_folder entries"
| "walk_list recursive filesystem_path export_folder [] = []"
| "walk_list recursive filesystem_path export_folder (file_info # rest) =
     (filesystem_path @ entry_name file_info, export_folder @ ''/'' @ entry_name file_info,
        IsDirectory file_info) #
     (if IsDirectory file_info \<and> recursive
      then walk recursive (filesystem_path @ entry_name file_info)
             (export_folder @ ''/'' @ entry_name file_info) file_info
      else []) @
     walk_list recursive filesystem_path export_folder rest"

text \<open>A trace is cancelled when the callback has answered true somewhere in it.\<close>

definition cancelled :: "event list \<Rightarrow> bool" where
  "cancelled t = list_ex is_cancel t"

text \<open>
  A root directory with a subdirectory \<open>A\<close> holding the file \<open>x\<close>, followed by the file
  \<open>y\<close>; both files are two bytes long.
\<close>

definition example_tree :: FileInfo where
  "example_tree = FileInfo [] 0 0 True
     [FileInfo ''A'' 0 0 True [FileInfo ''x'' 0x10 2 False []],
      FileInfo ''y'' 0x20 2 False []]"

text \<open>
  Four callbacks: one that never cancels, one that answers true for the path \<open>A/x\<close>
  only, one that answers true for \<open>A/x\<close> and ever after, and one that answers true for
  \<open>A/x\<close> unless it has answered true before.
\<close>

definition never_cancel :: "event list \<Rightarrow> string \<Rightarrow> bool" where
  "never_cancel t path = False"

definition cancel_at_x :: "event list \<Rightarrow> string \<Rightarrow> bool" where
  "cancel_at_x t path = (path = ''A/x'')"

definition cancel_from_x :: "event list \<Rightarrow> string \<Rightarrow> bool" where
  "cancel_from_x t path = (path = ''A/x'' \<or> cancelled t)"

definition cancel_once :: "event list \<Rightarrow> string \<Rightarrow> bool" where
  "cancel_once t path = (path = ''A/x'' \<and> \<not> cancelled t)"

text \<open>A host that already holds a file at \<open>out/y\<close>.\<close>

definition busy_host :: Host where
  "busy_host = \<lparr>files = [''out/y'' \<mapsto> [9]], dirs = {''out/''}, open_ok = (\<lambda>_. True),
     write_ok = (\<lambda>_ _ _. True), trace = []\<rparr>"

text \<open>
  The events of a run that finds every file entry on the host and is not cancelled: for
  each entry of the traversal one callback invocation answering false, followed for a
  directory that is descended into by the creation of its export folder, and for a file
  by the notice that it already exists.
\<close>

fun rerun_events :: "bool \<Rightarrow> (string \<times> string \<times> bool) list \<Rightarrow> event list" where
  "rerun_events recursive [] = []"
| "rerun_events recursive ((path, export_path, is_dir) # entries) =
     Reported path False #
     (if is_dir then (if recursive then [MadePath (export_path @ ''/'')] else [])
      else [NoticeLog (export_path @ '' already exists'')]) @
     rerun_events recursive entries"

section \<open>Typed reads\<close>

lemma upt_4: "[0..<4] = [0, 1, 2, Suc 2]"
  by code_simp

lemma upt_7: "[0..<7] = [0, 1, 2, 3, 4, 5, 6]"
  by code_simp

lemma upt_11: "[0..<11] = [0, 1, 2, 3, 4, 5, 6, 7, 8, 9, 10]"
  by code_simp

lemma volume_bytes_4:
  "volume_bytes volume part a 4 =
     [content volume part a, content volume part (a + 1),
      content volume part (a + 2), content volume part (a + 3)]"
  by (simp add: volume_bytes_def upt_4)

lemma unat_u8_less: "unat (b :: u8) < 256"
  using unsigned_less [of b] by simp

lemma big_endian_u32_at_less: "big_endian_u32_at volume part a < 2 ^ 32"
  unfolding big_endian_u32_at_def
  using unat_u8_less [of "content volume part a"] unat_u8_less [of "content volume part (a + 1)"]
    unat_u8_less [of "content volume part (a + 2)"] unat_u8_less [of "content volume part (a + 3)"]
  by simp

lemma FromBigEndian_4:
  "FromBigEndian (volume_bytes volume part a 4) = of_nat (big_endian_u32_at volume part a)"
  by (simp add: FromBigEndian_def volume_bytes_4 big_endian_u32_at_def algebra_simps)

lemma ReadSwapped_u32_eq:
  "ReadSwapped_u32 volume a part =
     (if readable volume part a 4 then Some (of_nat (big_endian_u32_at volume part a)) else None)"
  by (simp add: ReadSwapped_u32_def Read_def FromBigEndian_4)

lemma unat_ucast_32_64: "unat (ucast (v :: u32) :: u64) = unat v"
proof -
  have "unat v < 2 ^ 32" using unsigned_less [of v] by simp
  then have "unat v < 2 ^ 64" by simp
  then show ?thesis
    by (simp add: unsigned_ucast_eq take_bit_nat_eq_self)
qed

lemma unat_shift2: "unat (push_bit 2 (ucast (v :: u32) :: u64)) = 4 * unat v"
proof -
  have "unat v < 2 ^ 32" using unsigned_less [of v] by simp
  then have lt: "4 * unat v < 2 ^ 64" by simp
  have "unat (push_bit 2 (ucast v :: u64)) = (4 * unat (ucast v :: u64)) mod 2 ^ 64"
    by (simp add: push_bit_eq_mult unat_word_ariths mult.commute)
  then show ?thesis using lt by (simp add: unat_ucast_32_64)
qed

lemma unat_of_nat_big_endian:
  "unat (of_nat (big_endian_u32_at volume part a) :: u32) = big_endian_u32_at volume part a"
  using big_endian_u32_at_less [of volume part a] by (simp add: unat_of_nat)

section \<open>Boot executable offset\<close>

text \<open>
  C8. \<open>GetBootDOLOffset\<close> returns no value when the medium is not disc-type or when the
  4-byte read at \<open>0x420\<close> fails. Otherwise it returns the big-endian value \<open>v\<close> stored
  there, widened to 64 bits and, on a Wii disc (the flavour with offset-shifted
  addressing), shifted left by 2, which is exactly \<open>4 * v\<close> since the widening comes first;
  on any other disc flavour it returns \<open>v\<close> itself.
\<close>

theorem GetBootDOLOffset_spec:
  "GetBootDOLOffset IsDisc volume part =
     (if IsDisc (GetVolumeType volume) \<and> readable volume part 0x420 4
      then Some (if GetVolumeType volume = WII_DISC
                 then push_bit 2 (ucast (of_nat (big_endian_u32_at volume part 0x420) :: u32))
                 else ucast (of_nat (big_endian_u32_at volume part 0x420) :: u32))
      else None) \<and>
   map_option unat (GetBootDOLOffset IsDisc volume part) =
     (if IsDisc (GetVolumeType volume) \<and> readable volume part 0x420 4
      then Some (if GetVolumeType volume = WII_DISC
                 then 4 * big_endian_u32_at volume part 0x420
                 else big_endian_u32_at volume part 0x420)
      else None)"
  by (simp add: GetBootDOLOffset_def ReadSwapped_u32_eq Let_def unat_shift2 unat_ucast_32_64
      unat_of_nat_big_endian)

theorem GetBootDOLOffset_spec_witness:
  "example_IsDisc (GetVolumeType example_wii) \<and> readable example_wii () 0x420 4 \<and>
   GetVolumeType example_wii = WII_DISC \<and>
   big_endian_u32_at example_wii () 0x420 = 0x10000 \<and>
   GetBootDOLOffset example_IsDisc example_wii () = Some 0x40000 \<and>
   GetBootDOLOffset example_IsDisc (example_wii\<lparr>GetVolumeType := WII_WAD\<rparr>) () = None \<and>
   GetBootDOLOffset example_IsDisc (example_wii\<lparr>GetVolumeType := GAMECUBE_DISC\<rparr>) () = Some 0x10000"
proof -
  have be: "big_endian_u32_at example_wii () 0x420 = 0x10000"
    "big_endian_u32_at (example_wii\<lparr>GetVolumeType := GAMECUBE_DISC\<rparr>) () 0x420 = 0x10000"
    by (simp_all add: big_endian_u32_at_def example_wii_def)
  show ?thesis
    using GetBootDOLOffset_spec [of example_IsDisc example_wii "()"]
      GetBootDOLOffset_spec [of example_IsDisc "example_wii\<lparr>GetVolumeType := WII_WAD\<rparr>" "()"]
      GetBootDOLOffset_spec [of example_IsDisc "example_wii\<lparr>GetVolumeType := GAMECUBE_DISC\<rparr>" "()"]
    by (simp add: be) (simp add: example_IsDisc_def example_wii_def)
qed

section \<open>Boot executable size\<close>

lemma segment_loop_eq:
  "segment_loop volume part d off_f size_f is acc =
     (if \<forall>i \<in> set is. readable volume part (d + off_f + of_nat i * 4) 4 \<and>
                          readable volume part (d + size_f + of_nat i * 4) 4
      then Some (fold max
         (map (\<lambda>i. wrapped_end volume part (d + off_f + of_nat i * 4, d + size_f + of_nat i * 4)) is) acc)
      else None)"
proof (induction "is" arbitrary: acc)
  case Nil
  then show ?case by simp
next
  case (Cons i "is")
  show ?case
    by (simp add: Cons.IH ReadSwapped_u32_eq wrapped_end_def max.commute)
qed

lemma GetBootDOLSize_fold:
  "GetBootDOLSize IsDisc volume part dol_offset =
     (if IsDisc (GetVolumeType volume) \<and>
         (\<forall>(a, b) \<in> set (segment_fields dol_offset). readable volume part a 4 \<and> readable volume part b 4)
      then Some (fold max (map (wrapped_end volume part) (segment_fields dol_offset)) 0)
      else None)"
  unfolding GetBootDOLSize_def segment_loop_eq segment_fields_def
  by (auto simp: comp_def)

lemma fold_max_Max: "fold max xs (a :: 'a :: linorder) = Max (set (a # xs))"
  using Max.set_eq_fold [of a xs] by simp

lemma unat_Max: "finite A \<Longrightarrow> A \<noteq> {} \<Longrightarrow> unat (Max A :: u32) = Max (unat ` A)"
  by (rule mono_Max_commute) (auto simp: mono_def word_le_nat_alt)

lemma unat_wrapped_end:
  "unat (wrapped_end volume part ab) =
     (big_endian_u32_at volume part (fst ab) + big_endian_u32_at volume part (snd ab)) mod 2 ^ 32"
  using big_endian_u32_at_less [of volume part "fst ab"]
    big_endian_u32_at_less [of volume part "snd ab"]
  by (simp add: wrapped_end_def unat_word_ariths unat_of_nat)

lemma segment_fields_nonempty: "segment_fields d \<noteq> []"
  by (simp add: segment_fields_def upt_rec [of 0 7])

lemma length_segment_fields: "length (segment_fields d) = 18"
  by (simp add: segment_fields_def)

lemma unat_fold_max:
  "unat (fold max (map (wrapped_end volume part) (segment_fields d)) 0) =
     Max (set (map (\<lambda>n. n mod 2 ^ 32) (segment_ends volume part d)))"
proof -
  let ?ws = "map (wrapped_end volume part) (segment_fields d)"
  have ne: "set ?ws \<noteq> {}" using segment_fields_nonempty [of d] by simp
  have "fold max ?ws 0 = Max (insert 0 (set ?ws))" by (simp add: fold_max_Max)
  also have "\<dots> = max 0 (Max (set ?ws))" using ne by (simp add: Max_insert)
  also have "\<dots> = Max (set ?ws)" by (simp add: max_def)
  finally have "unat (fold max ?ws 0) = Max (unat ` set ?ws)"
    using ne by (simp add: unat_Max)
  moreover have "map unat ?ws = map (\<lambda>n. n mod 2 ^ 32) (segment_ends volume part d)"
    by (simp add: segment_ends_def unat_wrapped_end split_beta)
  then have "unat ` set ?ws = set (map (\<lambda>n. n mod 2 ^ 32) (segment_ends volume part d))"
    by (metis set_map)
  ultimately show ?thesis by simp
qed

lemma segment_fields_0: "segment_fields 0 =
  [(0, 0x90), (4, 0x94), (8, 0x98), (0xc, 0x9c), (0x10, 0xa0), (0x14, 0xa4), (0x18, 0xa8),
   (0x1c, 0xac), (0x20, 0xb0), (0x24, 0xb4), (0x28, 0xb8), (0x2c, 0xbc), (0x30, 0xc0),
   (0x34, 0xc4), (0x38, 0xc8), (0x3c, 0xcc), (0x40, 0xd0), (0x44, 0xd4)]"
  by (simp add: segment_fields_def upt_7 upt_11)

lemma segment_ends_example_dol:
  "segment_ends example_dol () 0 = [0, 0, 0, 0, 0, 0, 0, 0x150, 0, 0, 0, 0, 0, 0, 0, 0, 0, 0]"
  by (simp add: segment_ends_def segment_fields_0 big_endian_u32_at_def example_dol_def)

lemma segment_ends_overflow_dol:
  "segment_ends overflow_dol () 0 = [0x100000001, 0, 0, 0, 0, 0, 0, 0, 0, 0, 0, 0, 0, 0, 0, 0, 0, 0]"
  by (simp add: segment_ends_def segment_fields_0 big_endian_u32_at_def overflow_dol_def)

text \<open>
  C1, as the code has it. \<open>GetBootDOLSize\<close> returns a value exactly when the medium is
  disc-type and the reads of both fields of all 18 descriptors succeed. The value is the
  maximum over the 18 descriptors of segment offset plus segment size taken modulo
  \<open>2^32\<close> (the sum is formed in \<open>u32\<close>); when no descriptor's sum reaches \<open>2^32\<close> it is the
  maximum of the sums themselves. A descriptor with offset and size 0 contributes 0.
\<close>

theorem GetBootDOLSize_wrapped_max:
  "map_option unat (GetBootDOLSize IsDisc volume part dol_offset) =
     (if IsDisc (GetVolumeType volume) \<and>
         (\<forall>(a, b) \<in> set (segment_fields dol_offset).
             readable volume part a 4 \<and> readable volume part b 4)
      then Some (Max (set (map (\<lambda>n. n mod 2 ^ 32) (segment_ends volume part dol_offset))))
      else None) \<and>
   (IsDisc (GetVolumeType volume) \<and>
    (\<forall>(a, b) \<in> set (segment_fields dol_offset).
        readable volume part a 4 \<and> readable volume part b 4) \<and>
    (\<forall>n \<in> set (segment_ends volume part dol_offset). n < 2 ^ 32) \<longrightarrow>
      map_option unat (GetBootDOLSize IsDisc volume part dol_offset) =
        Some (Max (set (segment_ends volume part dol_offset))))"
proof -
  have "(\<forall>n \<in> set (segment_ends volume part dol_offset). n < 2 ^ 32) \<longrightarrow>
      map (\<lambda>n. n mod 2 ^ 32) (segment_ends volume part dol_offset)
        = segment_ends volume part dol_offset"
    by (simp add: map_idI)
  then show ?thesis
    by (auto simp add: GetBootDOLSize_fold unat_fold_max)
qed

theorem GetBootDOLSize_wrapped_max_witness:
  "example_IsDisc (GetVolumeType example_dol) \<and>
   list_all (\<lambda>(a, b). readable example_dol () a 4 \<and> readable example_dol () b 4)
     (segment_fields 0) \<and>
   list_all (\<lambda>n. n < 2 ^ 32) (segment_ends example_dol () 0) \<and>
   map_option unat (GetBootDOLSize example_IsDisc example_dol () 0) = Some 0x150"
proof -
  have disc: "example_IsDisc (GetVolumeType example_dol)"
    by (simp add: example_IsDisc_def example_dol_def)
  have rd: "\<forall>(a, b) \<in> set (segment_fields 0). readable example_dol () a 4 \<and> readable example_dol () b 4"
    by (simp add: example_dol_def)
  have small: "\<forall>n \<in> set (segment_ends example_dol () 0). n < 2 ^ 32"
    by (simp add: segment_ends_example_dol)
  from GetBootDOLSize_wrapped_max [of example_IsDisc example_dol "()" 0] disc rd small
  have "map_option unat (GetBootDOLSize example_IsDisc example_dol () 0) =
      Some (Max (set (segment_ends example_dol () 0)))"
    by blast
  then show ?thesis using disc rd small
    by (simp add: segment_ends_example_dol list_all_iff)
qed

text \<open>
  C1 as stated fails on a header whose first code descriptor has offset \<open>0xFFFFFFFF\<close> and
  size \<open>2\<close>: every read succeeds on a disc-type medium, the maximum of offset plus size is
  \<open>0x100000001\<close>, and \<open>GetBootDOLSize\<close> returns 1.
\<close>

theorem GetBootDOLSize_overflow_counterexample:
  "example_IsDisc (GetVolumeType overflow_dol) \<and>
   list_all (\<lambda>(a, b). readable overflow_dol () a 4 \<and> readable overflow_dol () b 4)
     (segment_fields 0) \<and>
   GetBootDOLSize example_IsDisc overflow_dol () 0 = Some 1 \<and>
   Max (set (segment_ends overflow_dol () 0)) = 0x100000001 \<and>
   map_option unat (GetBootDOLSize example_IsDisc overflow_dol () 0)
     \<noteq> Some (Max (set (segment_ends overflow_dol () 0)))"
proof -
  have "GetBootDOLSize example_IsDisc overflow_dol () 0 = Some 1"
    by (simp add: GetBootDOLSize_fold example_IsDisc_def overflow_dol_def segment_fields_0
        wrapped_end_def big_endian_u32_at_def)
  then show ?thesis
    by (simp add: segment_ends_overflow_dol) (simp add: example_IsDisc_def overflow_dol_def list_all_iff)
qed

section \<open>File Reader\<close>

lemma length_volume_bytes [simp]: "length (volume_bytes volume part a n) = unat n"
  by (simp add: volume_bytes_def)

lemma unat_min: "unat (min a b :: 'a :: len word) = min (unat a) (unat b)"
  by (simp add: min_def word_le_nat_alt)

text \<open>
  C3. \<open>ReadFile\<close> returns 0, whatever the capacity, when the FileInfo pointer is null,
  when the FileInfo is a directory, when the starting offset is at or past the file's
  size, or when the Volume read it delegates to fails; otherwise it returns the smaller
  of the capacity and file size minus starting offset, and the first returned bytes of
  the buffer are the Volume's bytes from \<open>disc_offset + starting offset\<close> on.
\<close>

theorem ReadFile_spec:
  "fst (ReadFile volume part file_info buffer max_buffer_size offset_in_file) =
     (case file_info of
        None \<Rightarrow> 0
      | Some fi \<Rightarrow>
          if IsDirectory fi \<or> GetSize fi \<le> offset_in_file \<or>
             \<not> readable volume part (GetOffset fi + offset_in_file)
                 (min max_buffer_size (GetSize fi - offset_in_file))
          then 0
          else min max_buffer_size (GetSize fi - offset_in_file)) \<and>
   (\<forall>fi. file_info = Some fi \<and> \<not> IsDirectory fi \<and> offset_in_file < GetSize fi \<and>
         readable volume part (GetOffset fi + offset_in_file)
           (min max_buffer_size (GetSize fi - offset_in_file)) \<longrightarrow>
      unat (fst (ReadFile volume part file_info buffer max_buffer_size offset_in_file)) =
        min (unat max_buffer_size) (unat (GetSize fi) - unat offset_in_file) \<and>
      take (unat (fst (ReadFile volume part file_info buffer max_buffer_size offset_in_file)))
          (snd (ReadFile volume part file_info buffer max_buffer_size offset_in_file)) =
        volume_bytes volume part (GetOffset fi + offset_in_file)
          (fst (ReadFile volume part file_info buffer max_buffer_size offset_in_file)))"
  by (auto simp: ReadFile_def Read_def Let_def unat_min unat_sub word_le_nat_alt word_less_nat_alt
      split: option.splits)

lemma upt_3: "[0..<3] = [0, 1, 2]" by code_simp

theorem ReadFile_spec_witness:
  "\<not> IsDirectory example_file \<and> (1 :: u64) < GetSize example_file \<and>
   readable example_volume () (GetOffset example_file + 1) (min 3 (GetSize example_file - 1)) \<and>
   fst (ReadFile example_volume () (Some example_file) [0, 0, 0, 0] 3 1) = 3 \<and>
   take 3 (snd (ReadFile example_volume () (Some example_file) [0, 0, 0, 0] 3 1)) =
     [0x11, 0x12, 0x13] \<and>
   fst (ReadFile example_volume () (Some example_file) [0, 0, 0, 0] 3 5) = 0 \<and>
   fst (ReadFile example_volume () None [0, 0, 0, 0] 3 1) = 0"
proof -
  have vb: "volume_bytes example_volume () 0x11 3 = [0x11, 0x12, 0x13]"
    by (simp add: volume_bytes_def example_volume_def upt_3)
  have pre: "\<not> IsDirectory example_file" "(1 :: u64) < GetSize example_file"
    "readable example_volume () (GetOffset example_file + 1) (min 3 (GetSize example_file - 1))"
    by (simp_all add: example_file_def example_volume_def)
  have m: "min 3 (GetSize example_file - 1) = (3 :: u64)" "GetOffset example_file + 1 = 0x11"
    "\<not> GetSize example_file \<le> 1" "GetSize example_file \<le> 5"
    by (simp_all add: example_file_def word_le_nat_alt)
  let ?r = "ReadFile example_volume () (Some example_file) [0, 0, 0, 0] 3 1"
  from ReadFile_spec [of example_volume "()" "Some example_file" "[0, 0, 0, 0]" 3 1] pre
  have a: "fst ?r = 3" and b: "take (unat (fst ?r)) (snd ?r) = volume_bytes example_volume () 0x11 (fst ?r)"
    by (auto simp add: m)
  from b have c: "take 3 (snd ?r) = [0x11, 0x12, 0x13]"
    unfolding a by (simp add: vb)
  show ?thesis
    using ReadFile_spec [of example_volume "()" "Some example_file" "[0, 0, 0, 0]" 3 5]
      ReadFile_spec [of example_volume "()" None "[0, 0, 0, 0]" 3 1] pre a c
    by (simp add: m)
qed

section \<open>Bulk Data Exporter: lemmas\<close>


lemma log_event_fields [simp]:
  "files (log_event e h) = files h" "dirs (log_event e h) = dirs h"
  "open_ok (log_event e h) = open_ok h" "write_ok (log_event e h) = write_ok h"
  "trace (log_event e h) = trace h @ [e]"
  by (simp_all add: log_event_def)

lemma WriteBytes_ok:
  "write_ok h path (case files h path of None \<Rightarrow> [] | Some c \<Rightarrow> c) data \<Longrightarrow>
   WriteBytes path data h =
     (True, log_event (Wrote path (length data) True)
        (h\<lparr>files := (files h)(path \<mapsto> (case files h path of None \<Rightarrow> [] | Some c \<Rightarrow> c) @ data)\<rparr>))"
  by (simp add: WriteBytes_def)

lemma WriteBytes_fail:
  "\<not> write_ok h path (case files h path of None \<Rightarrow> [] | Some c \<Rightarrow> c) data \<Longrightarrow>
   WriteBytes path data h = (False, log_event (Wrote path (length data) False) h)"
  by (simp add: WriteBytes_def)


lemma unat_cap: "unat (0x08000000 :: u64) = chunk_cap"
  by (simp add: chunk_cap_def)

lemma unat_read_size: "unat (min sz 0x08000000 :: u64) = min (unat sz) chunk_cap"
  by (simp add: unat_min chunk_cap_def)

lemma unat_rest: "unat (sz - min sz 0x08000000 :: u64) = unat sz - min (unat sz) chunk_cap"
  by (simp add: unat_sub unat_read_size)

lemma volume_bytes_append:
  assumes "a \<le> b"
  shows "volume_bytes volume part off a @ volume_bytes volume part (off + a) (b - a)
           = volume_bytes volume part off b"
proof -
  have ab: "unat a \<le> unat b" using assms by (simp add: word_le_nat_alt)
  have sub: "unat (b - a) = unat b - unat a" using assms by (simp add: unat_sub)
  have "[0..<unat b] = [0..<unat a] @ [unat a..<unat b]"
    using ab by (metis le_add_diff_inverse upt_add_eq_append zero_le)
  moreover have "map (\<lambda>i. content volume part (off + of_nat i)) [unat a..<unat b]
      = map (\<lambda>i. content volume part (off + a + of_nat i)) [0..<unat b - unat a]"
  proof -
    have "[unat a..<unat b] = map (\<lambda>i. i + unat a) [0..<unat b - unat a]"
      using ab by (simp add: map_add_upt)
    then show ?thesis by (simp add: comp_def add.commute add.left_commute)
  qed
  ultimately show ?thesis
    by (simp add: volume_bytes_def sub)
qed

lemma chunk_lengths_0 [simp]: "chunk_lengths 0 = []"
  by (simp add: chunk_lengths_def)

lemma chunk_lengths_step:
  assumes "0 < n"
  shows "chunk_lengths n = min n chunk_cap # chunk_lengths (n - min n chunk_cap)"
proof (cases "n < chunk_cap")
  case True
  then show ?thesis using assms by (simp add: chunk_lengths_def)
next
  case False
  then have ge: "chunk_cap \<le> n" by simp
  have pos: "0 < chunk_cap" by (simp add: chunk_cap_def)
  have d: "n div chunk_cap = Suc ((n - chunk_cap) div chunk_cap)"
    using ge pos by (simp add: le_div_geq)
  have m: "n mod chunk_cap = (n - chunk_cap) mod chunk_cap"
    using ge by (simp add: le_mod_geq)
  show ?thesis using ge by (simp add: chunk_lengths_def d m min_def)
qed



lemma loop_done: "ExportData_loop volume part path offset 0 h = (True, h)"
  by (simp add: ExportData_loop.simps)

lemma loop_read_fail:
  "sz \<noteq> 0 \<Longrightarrow> \<not> readable volume part offset (min sz 0x08000000) \<Longrightarrow>
   ExportData_loop volume part path offset sz h =
     (False, log_event (VolumeRead offset (min sz 0x08000000) False) h)"
  by (simp add: ExportData_loop.simps [of volume part path offset sz h] Read_def Let_def)

lemma loop_write_fail:
  "sz \<noteq> 0 \<Longrightarrow> readable volume part offset (min sz 0x08000000) \<Longrightarrow>
   files h path = Some old \<Longrightarrow>
   \<not> write_ok h path old (volume_bytes volume part offset (min sz 0x08000000)) \<Longrightarrow>
   ExportData_loop volume part path offset sz h =
     (False, log_event (Wrote path (unat (min sz 0x08000000 :: u64)) False)
        (log_event (VolumeRead offset (min sz 0x08000000) True) h))"
  by (simp add: ExportData_loop.simps [of volume part path offset sz h] Read_def WriteBytes_def
      Let_def)

lemma loop_step:
  "sz \<noteq> 0 \<Longrightarrow> readable volume part offset (min sz 0x08000000) \<Longrightarrow>
   files h path = Some old \<Longrightarrow>
   write_ok h path old (volume_bytes volume part offset (min sz 0x08000000)) \<Longrightarrow>
   ExportData_loop volume part path offset sz h =
     ExportData_loop volume part path (offset + min sz 0x08000000) (sz - min sz 0x08000000)
       (h\<lparr>files := (files h)(path \<mapsto> old @ volume_bytes volume part offset (min sz 0x08000000)),
          trace := trace h @ [VolumeRead offset (min sz 0x08000000) True,
                              Wrote path (unat (min sz 0x08000000 :: u64)) True]\<rparr>)"
  by (simp add: ExportData_loop.simps [of volume part path offset sz h] Read_def WriteBytes_def
      log_event_def Let_def)

lemma rest_less:
  assumes "sz \<noteq> 0"
  shows "unat (sz - min sz 0x08000000 :: u64) < unat sz"
proof -
  have "0 < unat sz" using assms by (simp add: unat_gt_0)
  moreover have "0 < chunk_cap" by (simp add: chunk_cap_def)
  ultimately show ?thesis unfolding unat_rest by arith
qed


lemma loop_frame:
  "files h path = Some old \<Longrightarrow>
   dirs (snd (ExportData_loop volume part path offset sz h)) = dirs h \<and>
   open_ok (snd (ExportData_loop volume part path offset sz h)) = open_ok h \<and>
   write_ok (snd (ExportData_loop volume part path offset sz h)) = write_ok h \<and>
   (\<forall>q. q \<noteq> path \<longrightarrow> files (snd (ExportData_loop volume part path offset sz h)) q = files h q)"
proof (induction "unat sz" arbitrary: sz offset h old rule: less_induct)
  case less
  let ?n = "min sz 0x08000000"
  let ?chunk = "volume_bytes volume part offset ?n"
  consider "sz = 0" | "sz \<noteq> 0" "\<not> readable volume part offset ?n"
    | "sz \<noteq> 0" "readable volume part offset ?n" "\<not> write_ok h path old ?chunk"
    | "sz \<noteq> 0" "readable volume part offset ?n" "write_ok h path old ?chunk"
    by blast
  then show ?case
  proof cases
    case 1
    then show ?thesis by (simp add: loop_done)
  next
    case 2
    then show ?thesis by (simp add: loop_read_fail)
  next
    case 3
    then show ?thesis using less.prems by (simp add: loop_write_fail)
  next
    case 4
    let ?h = "h\<lparr>files := (files h)(path \<mapsto> old @ ?chunk),
          trace := trace h @ [VolumeRead offset ?n True, Wrote path (unat ?n) True]\<rparr>"
    have eq: "ExportData_loop volume part path offset sz h =
        ExportData_loop volume part path (offset + ?n) (sz - ?n) ?h"
      by (rule loop_step [OF 4(1) 4(2) less.prems 4(3)])
    have "files ?h path = Some (old @ ?chunk)" by simp
    from less.hyps [OF rest_less [OF 4(1)] this, of "offset + ?n"]
    show ?thesis unfolding eq by simp
  qed
qed


lemma volume_bytes_0 [simp]: "volume_bytes volume part off 0 = []"
  by (simp add: volume_bytes_def)

lemma of_nat_cap: "(of_nat chunk_cap :: u64) = 0x08000000"
  by (simp add: chunk_cap_def)

lemma read_size_eq: "(min sz 0x08000000 :: u64) = of_nat (min (unat sz) chunk_cap)"
  using unat_read_size [of sz, symmetric] by simp

lemma read_size_full: "chunk_cap \<le> unat (sz :: u64) \<Longrightarrow> min sz 0x08000000 = 0x08000000"
  by (simp add: word_unat_eq_iff unat_read_size chunk_cap_def)

lemma volume_bytes_chunks:
  assumes "Suc j * chunk_cap < unat (sz :: u64)"
  shows "volume_bytes volume part off 0x08000000 @
           volume_bytes volume part (off + 0x08000000) (of_nat (j * chunk_cap))
         = volume_bytes volume part off (of_nat (Suc j * chunk_cap))"
proof -
  define b :: u64 where "b = of_nat (Suc j * chunk_cap)"
  have "unat sz < 2 ^ 64" using unsigned_less [of sz] by simp
  then have lt: "Suc j * chunk_cap < 2 ^ 64" using assms by simp
  have "unat b = (Suc j * chunk_cap) mod 2 ^ 64"
    unfolding b_def by (simp only: unat_of_nat) simp
  then have ub: "unat b = Suc j * chunk_cap" using lt by simp
  have le: "(0x08000000 :: u64) \<le> b"
    unfolding word_le_nat_alt ub by (simp add: chunk_cap_def)
  have "b - 0x08000000 = of_nat (j * chunk_cap)"
    unfolding b_def by (simp add: of_nat_cap [symmetric])
  with volume_bytes_append [OF le, of volume part off] show ?thesis
    unfolding b_def by simp
qed

lemma chunk_ok_0:
  "chunk_ok volume part path h old offset sz 0 =
     (readable volume part offset (min sz 0x08000000) \<and>
      write_ok h path old (volume_bytes volume part offset (min sz 0x08000000)))"
  by (simp add: chunk_ok_def read_size_eq min.commute Let_def)

lemma chunk_ok_shift:
  assumes "Suc k * chunk_cap < unat (sz :: u64)" and "write_ok h' = write_ok h"
  shows "chunk_ok volume part path h' (old @ volume_bytes volume part offset 0x08000000)
           (offset + 0x08000000) (sz - 0x08000000) k
         = chunk_ok volume part path h old offset sz (Suc k)"
proof -
  have big: "chunk_cap \<le> unat sz" using assms(1) by simp
  then have "(0x08000000 :: u64) \<le> sz" by (simp add: word_le_nat_alt chunk_cap_def)
  then have rest: "unat (sz - 0x08000000) = unat sz - chunk_cap"
    by (simp add: unat_sub chunk_cap_def)
  have off: "offset + 0x08000000 + of_nat (k * chunk_cap) = offset + of_nat (Suc k * chunk_cap)"
    by (simp add: of_nat_cap [symmetric])
  have len: "unat sz - chunk_cap - k * chunk_cap = unat sz - Suc k * chunk_cap"
    by simp
  have bytes: "(old @ volume_bytes volume part offset 0x08000000) @
        volume_bytes volume part (offset + 0x08000000) (of_nat (k * chunk_cap))
      = old @ volume_bytes volume part offset (of_nat (Suc k * chunk_cap))"
    using volume_bytes_chunks [OF assms(1), of volume part offset] by simp
  show ?thesis
    unfolding chunk_ok_def Let_def rest off len bytes assms(2) ..
qed

lemma loop_success:
  "files h path = Some old \<Longrightarrow> fst (ExportData_loop volume part path offset sz h) \<Longrightarrow>
   files (snd (ExportData_loop volume part path offset sz h)) path
     = Some (old @ volume_bytes volume part offset sz) \<and>
   trace (snd (ExportData_loop volume part path offset sz h))
     = trace h @ transfer_events path offset (chunk_lengths (unat sz)) \<and>
   (\<forall>k. k * chunk_cap < unat sz \<longrightarrow> chunk_ok volume part path h old offset sz k)"
proof (induction "unat sz" arbitrary: sz offset h old rule: less_induct)
  case less
  let ?n = "min sz 0x08000000"
  let ?chunk = "volume_bytes volume part offset ?n"
  consider "sz = 0" | "sz \<noteq> 0" "\<not> readable volume part offset ?n"
    | "sz \<noteq> 0" "readable volume part offset ?n" "\<not> write_ok h path old ?chunk"
    | "sz \<noteq> 0" "readable volume part offset ?n" "write_ok h path old ?chunk"
    by blast
  then show ?case
  proof cases
    case 1
    then show ?thesis using less.prems by (simp add: loop_done)
  next
    case 2
    then show ?thesis using less.prems by (simp add: loop_read_fail)
  next
    case 3
    then show ?thesis using less.prems by (simp add: loop_write_fail)
  next
    case 4
    let ?h = "h\<lparr>files := (files h)(path \<mapsto> old @ ?chunk),
          trace := trace h @ [VolumeRead offset ?n True, Wrote path (unat ?n) True]\<rparr>"
    let ?r' = "ExportData_loop volume part path (offset + ?n) (sz - ?n) ?h"
    have eq: "ExportData_loop volume part path offset sz h = ?r'"
      by (rule loop_step [OF 4(1) 4(2) less.prems(1) 4(3)])
    have f: "files ?h path = Some (old @ ?chunk)" by simp
    have ok: "fst ?r'"
      using less.prems(2) unfolding eq .
    have pos: "0 < unat sz" using 4(1) by (simp add: unat_gt_0)
    have cl: "chunk_lengths (unat sz) = unat ?n # chunk_lengths (unat (sz - ?n))"
      using chunk_lengths_step [OF pos] by (simp add: unat_read_size unat_rest)
    have app: "?chunk @ volume_bytes volume part (offset + ?n) (sz - ?n)
        = volume_bytes volume part offset sz"
      by (rule volume_bytes_append) simp
    note IH = less.hyps [OF rest_less [OF 4(1)] f ok]
    have all: "chunk_ok volume part path h old offset sz k" if k: "k * chunk_cap < unat sz" for k
    proof (cases k)
      case 0
      then show ?thesis using 4 by (simp add: chunk_ok_0)
    next
      case (Suc j)
      with k have sj: "Suc j * chunk_cap < unat sz" by simp
      then have full: "?n = 0x08000000" by (simp add: read_size_full)
      from sj have "j * chunk_cap < unat (sz - ?n)" unfolding unat_rest by simp
      with IH have "chunk_ok volume part path ?h (old @ ?chunk) (offset + ?n) (sz - ?n) j"
        by blast
      then show ?thesis
        unfolding Suc using chunk_ok_shift [OF sj, where h' = ?h and h = h and volume = volume and part = part
          and path = path and old = old and offset = offset] by (simp add: full)
    qed
    from IH all show ?thesis unfolding eq by (simp add: cl app)
  qed
qed

lemma loop_failure:
  "files h path = Some old \<Longrightarrow> \<not> fst (ExportData_loop volume part path offset sz h) \<Longrightarrow>
   \<exists>k. k * chunk_cap < unat sz \<and>
     \<not> chunk_ok volume part path h old offset sz k \<and>
     (\<forall>j < k. chunk_ok volume part path h old offset sz j) \<and>
     files (snd (ExportData_loop volume part path offset sz h)) path
       = Some (old @ volume_bytes volume part offset (of_nat (k * chunk_cap))) \<and>
     trace (snd (ExportData_loop volume part path offset sz h))
       = trace h @ transfer_events path offset (replicate k chunk_cap) @
           failure_events volume part path (offset + of_nat (k * chunk_cap))
             (of_nat (min chunk_cap (unat sz - k * chunk_cap)))"
proof (induction "unat sz" arbitrary: sz offset h old rule: less_induct)
  case less
  let ?n = "min sz 0x08000000"
  let ?chunk = "volume_bytes volume part offset ?n"
  let ?r = "ExportData_loop volume part path offset sz h"
  have pos: "sz \<noteq> 0 \<Longrightarrow> 0 < unat sz" by (simp add: unat_gt_0)
  have n_eq: "of_nat (min chunk_cap (unat sz)) = ?n"
    by (simp add: read_size_eq min.commute)
  consider "sz = 0" | "sz \<noteq> 0" "\<not> readable volume part offset ?n"
    | "sz \<noteq> 0" "readable volume part offset ?n" "\<not> write_ok h path old ?chunk"
    | "sz \<noteq> 0" "readable volume part offset ?n" "write_ok h path old ?chunk"
    by blast
  then show ?case
  proof cases
    case 1
    then show ?thesis using less.prems by (simp add: loop_done)
  next
    case 2
    have "0 * chunk_cap < unat sz \<and>
        \<not> chunk_ok volume part path h old offset sz 0 \<and>
        (\<forall>j < 0. chunk_ok volume part path h old offset sz j) \<and>
        files (snd ?r) path = Some (old @ volume_bytes volume part offset (of_nat (0 * chunk_cap))) \<and>
        trace (snd ?r) = trace h @ transfer_events path offset (replicate 0 chunk_cap) @
           failure_events volume part path (offset + of_nat (0 * chunk_cap))
             (of_nat (min chunk_cap (unat sz - 0 * chunk_cap)))"
      using 2 less.prems pos by (simp add: loop_read_fail failure_events_def n_eq chunk_ok_0)
    then show ?thesis by blast
  next
    case 3
    have "0 * chunk_cap < unat sz \<and>
        \<not> chunk_ok volume part path h old offset sz 0 \<and>
        (\<forall>j < 0. chunk_ok volume part path h old offset sz j) \<and>
        files (snd ?r) path = Some (old @ volume_bytes volume part offset (of_nat (0 * chunk_cap))) \<and>
        trace (snd ?r) = trace h @ transfer_events path offset (replicate 0 chunk_cap) @
           failure_events volume part path (offset + of_nat (0 * chunk_cap))
             (of_nat (min chunk_cap (unat sz - 0 * chunk_cap)))"
      using 3 less.prems pos by (simp add: loop_write_fail failure_events_def n_eq chunk_ok_0)
    then show ?thesis by blast
  next
    case 4
    let ?h = "h\<lparr>files := (files h)(path \<mapsto> old @ ?chunk),
          trace := trace h @ [VolumeRead offset ?n True, Wrote path (unat ?n) True]\<rparr>"
    let ?r' = "ExportData_loop volume part path (offset + ?n) (sz - ?n) ?h"
    have eq: "?r = ?r'"
      by (rule loop_step [OF 4(1) 4(2) less.prems(1) 4(3)])
    have f: "files ?h path = Some (old @ ?chunk)" by simp
    have nok: "\<not> fst ?r'" using less.prems(2) unfolding eq .
    from less.hyps [OF rest_less [OF 4(1)] f nok]
    obtain k where k: "k * chunk_cap < unat (sz - ?n)"
      and bad: "\<not> chunk_ok volume part path ?h (old @ ?chunk) (offset + ?n) (sz - ?n) k"
      and good: "\<forall>j < k. chunk_ok volume part path ?h (old @ ?chunk) (offset + ?n) (sz - ?n) j"
      and fk: "files (snd ?r') path
         = Some ((old @ ?chunk) @ volume_bytes volume part (offset + ?n) (of_nat (k * chunk_cap)))"
      and tk: "trace (snd ?r') = trace ?h @ transfer_events path (offset + ?n) (replicate k chunk_cap) @
           failure_events volume part path (offset + ?n + of_nat (k * chunk_cap))
             (of_nat (min chunk_cap (unat (sz - ?n) - k * chunk_cap)))"
      by blast
    from k have big: "chunk_cap < unat sz" unfolding unat_rest by arith
    then have full: "?n = 0x08000000" by (simp add: read_size_full)
    from k big have k': "Suc k * chunk_cap < unat sz" unfolding unat_rest by simp
    have bytes: "(old @ ?chunk) @ volume_bytes volume part (offset + ?n) (of_nat (k * chunk_cap))
        = old @ volume_bytes volume part offset (of_nat (Suc k * chunk_cap))"
      unfolding full using volume_bytes_chunks [OF k', of volume part offset] by simp
    have off: "offset + ?n + of_nat (k * chunk_cap) = offset + of_nat (Suc k * chunk_cap)"
      unfolding full by (simp add: of_nat_cap [symmetric])
    have len: "min chunk_cap (unat (sz - ?n) - k * chunk_cap)
        = min chunk_cap (unat sz - Suc k * chunk_cap)"
      using big unfolding unat_rest by simp
    have ev: "trace ?h @ transfer_events path (offset + ?n) (replicate k chunk_cap)
        = trace h @ transfer_events path offset (replicate (Suc k) chunk_cap)"
      unfolding full by (simp add: of_nat_cap chunk_cap_def)
    have bad': "\<not> chunk_ok volume part path h old offset sz (Suc k)"
      using bad chunk_ok_shift [OF k', where h' = ?h and h = h and volume = volume and part = part
          and path = path and old = old and offset = offset] by (simp add: full)
    have good': "chunk_ok volume part path h old offset sz j" if j: "j < Suc k" for j
    proof (cases j)
      case 0
      then show ?thesis using 4 by (simp add: chunk_ok_0)
    next
      case (Suc i)
      with j have i: "i < k" by simp
      then have "Suc i \<le> k" by simp
      then have "Suc i * chunk_cap \<le> k * chunk_cap" by (rule mult_le_mono1)
      with k' have si: "Suc i * chunk_cap < unat sz" by simp
      from good i have "chunk_ok volume part path ?h (old @ ?chunk) (offset + ?n) (sz - ?n) i"
        by blast
      then show ?thesis
        unfolding Suc using chunk_ok_shift [OF si, where h' = ?h and h = h and volume = volume and part = part
          and path = path and old = old and offset = offset] by (simp add: full)
    qed
    have "Suc k * chunk_cap < unat sz \<and>
        \<not> chunk_ok volume part path h old offset sz (Suc k) \<and>
        (\<forall>j < Suc k. chunk_ok volume part path h old offset sz j) \<and>
        files (snd ?r) path = Some (old @ volume_bytes volume part offset (of_nat (Suc k * chunk_cap))) \<and>
        trace (snd ?r) = trace h @ transfer_events path offset (replicate (Suc k) chunk_cap) @
           failure_events volume part path (offset + of_nat (Suc k * chunk_cap))
             (of_nat (min chunk_cap (unat sz - Suc k * chunk_cap)))"
      unfolding eq using k' fk tk bytes off len ev bad' good' by (metis append.assoc)
    then show ?thesis by blast
  qed
qed

section \<open>Bulk Data Exporter: results\<close>

lemma ExportData_open_fail:
  "\<not> open_ok h path \<Longrightarrow>
   ExportData volume part offset sz path h = (False, log_event (Opened path False) h)"
  by (simp add: ExportData_def IOFile_open_def)

lemma ExportData_open:
  "open_ok h path \<Longrightarrow>
   ExportData volume part offset sz path h =
     ExportData_loop volume part path offset sz
       (log_event (Opened path True) (h\<lparr>files := (files h)(path \<mapsto> [])\<rparr>))"
  by (simp add: ExportData_def IOFile_open_def)

lemma opened_file:
  "files (log_event (Opened path True) (h\<lparr>files := (files h)(path \<mapsto> [])\<rparr>)) path = Some []"
  by simp

lemma ExportData_frame:
  "dirs (snd (ExportData volume part offset sz path h)) = dirs h \<and>
   open_ok (snd (ExportData volume part offset sz path h)) = open_ok h \<and>
   write_ok (snd (ExportData volume part offset sz path h)) = write_ok h \<and>
   (\<forall>q. q \<noteq> path \<longrightarrow> files (snd (ExportData volume part offset sz path h)) q = files h q)"
proof (cases "open_ok h path")
  case True
  show ?thesis
    unfolding ExportData_open [OF True]
    using loop_frame [OF opened_file, of volume part path offset sz h] by simp
next
  case False
  then show ?thesis by (simp add: ExportData_open_fail)
qed

lemma ExportData_success_content:
  assumes "fst (ExportData volume part offset sz path h)"
  shows "files (snd (ExportData volume part offset sz path h)) path
           = Some (volume_bytes volume part offset sz)"
proof (cases "open_ok h path")
  case True
  show ?thesis
    using assms unfolding ExportData_open [OF True]
    using loop_success [OF opened_file, of volume part path offset sz h] by simp
next
  case False
  then show ?thesis using assms by (simp add: ExportData_open_fail)
qed

lemma chunk_lengths_bounds:
  "(\<forall>n \<in> set (chunk_lengths m). 0 < n \<and> n \<le> chunk_cap) \<and>
   (\<forall>n \<in> set (butlast (chunk_lengths m)). n = chunk_cap) \<and>
   sum_list (chunk_lengths m) = m"
proof -
  have pos: "0 < chunk_cap" by (simp add: chunk_cap_def)
  have "m div chunk_cap * chunk_cap + m mod chunk_cap = m" by simp
  then have "sum_list (chunk_lengths m) = m"
    by (auto simp: chunk_lengths_def sum_list_replicate)
  moreover have "\<forall>n \<in> set (chunk_lengths m). 0 < n \<and> n \<le> chunk_cap"
    using pos by (auto simp: chunk_lengths_def)
  moreover have "\<forall>n \<in> set (butlast (chunk_lengths m)). n = chunk_cap"
    by (auto simp: chunk_lengths_def butlast_append dest: in_set_butlastD)
  ultimately show ?thesis by blast
qed

text \<open>
  C4, as the code has it. When the host file opens and every Volume read and every host
  write that \<open>ExportData\<close> makes succeeds (each chunk's read, and the write of its bytes
  after the chunks before it), \<open>ExportData\<close> returns success and the host file holds
  exactly the Volume's bytes of the range \<open>[offset, offset + size)\<close> in their order. The
  transfer is a sequence of chunks, each one read and one write of the same length, of
  128 MiB each but for a last one that may be smaller; the lengths add up to \<open>size\<close>.
\<close>

theorem ExportData_success:
  assumes "open_ok h path"
    and "\<forall>k. k * chunk_cap < unat sz \<longrightarrow> chunk_ok volume part path h [] offset sz k"
  shows "fst (ExportData volume part offset sz path h) \<and>
    files (snd (ExportData volume part offset sz path h)) path
      = Some (volume_bytes volume part offset sz) \<and>
    trace (snd (ExportData volume part offset sz path h))
      = trace h @ Opened path True # transfer_events path offset (chunk_lengths (unat sz)) \<and>
    (\<forall>n \<in> set (chunk_lengths (unat sz)). 0 < n \<and> n \<le> 0x08000000) \<and>
    (\<forall>n \<in> set (butlast (chunk_lengths (unat sz))). n = 0x08000000) \<and>
    sum_list (chunk_lengths (unat sz)) = unat sz"
proof -
  let ?h = "log_event (Opened path True) (h\<lparr>files := (files h)(path \<mapsto> [])\<rparr>)"
  let ?r = "ExportData_loop volume part path offset sz ?h"
  have eq: "ExportData volume part offset sz path h = ?r"
    by (rule ExportData_open [OF assms(1)])
  have same: "chunk_ok volume part path ?h [] offset sz k = chunk_ok volume part path h [] offset sz k"
    for k by (simp add: chunk_ok_def)
  have ok: "fst ?r"
  proof (rule ccontr)
    assume "\<not> fst ?r"
    from loop_failure [OF opened_file this]
    obtain k where "k * chunk_cap < unat sz" "\<not> chunk_ok volume part path ?h [] offset sz k"
      by blast
    then show False using assms(2) by (simp add: same)
  qed
  from loop_success [OF opened_file ok] chunk_lengths_bounds [of "unat sz"] ok
  show ?thesis unfolding eq by (simp add: chunk_cap_def)
qed

text \<open>
  C5. When the destination cannot be opened \<open>ExportData\<close> returns failure at once and
  touches no file. When it opens, \<open>ExportData\<close> succeeds exactly when every chunk's read
  and write succeed; otherwise, with \<open>k\<close> the first chunk that fails, it returns failure,
  the host file holds exactly the \<open>k\<close> chunks before it, and the trace ends with that
  chunk's failed read or failed write: no retry, no deletion, no truncation.
\<close>

theorem ExportData_failure:
  "(\<not> open_ok h path \<longrightarrow>
      ExportData volume part offset sz path h = (False, log_event (Opened path False) h)) \<and>
   (open_ok h path \<longrightarrow>
      (fst (ExportData volume part offset sz path h) \<longleftrightarrow>
         (\<forall>k. k * chunk_cap < unat sz \<longrightarrow> chunk_ok volume part path h [] offset sz k)) \<and>
      (\<not> fst (ExportData volume part offset sz path h) \<longrightarrow>
         (\<exists>k. k * chunk_cap < unat sz \<and>
            \<not> chunk_ok volume part path h [] offset sz k \<and>
            (\<forall>j < k. chunk_ok volume part path h [] offset sz j) \<and>
            files (snd (ExportData volume part offset sz path h)) path
              = Some (volume_bytes volume part offset (of_nat (k * chunk_cap))) \<and>
            trace (snd (ExportData volume part offset sz path h))
              = trace h @ Opened path True # transfer_events path offset (replicate k chunk_cap) @
                  failure_events volume part path (offset + of_nat (k * chunk_cap))
                    (of_nat (min chunk_cap (unat sz - k * chunk_cap))))))"
proof (cases "open_ok h path")
  case False
  then show ?thesis by (simp add: ExportData_open_fail)
next
  case True
  let ?h = "log_event (Opened path True) (h\<lparr>files := (files h)(path \<mapsto> [])\<rparr>)"
  let ?r = "ExportData_loop volume part path offset sz ?h"
  have eq: "ExportData volume part offset sz path h = ?r"
    by (rule ExportData_open [OF True])
  have same: "chunk_ok volume part path ?h [] offset sz k = chunk_ok volume part path h [] offset sz k"
    for k by (simp add: chunk_ok_def)
  have a: "fst ?r \<Longrightarrow> \<forall>k. k * chunk_cap < unat sz \<longrightarrow> chunk_ok volume part path h [] offset sz k"
    using loop_success [OF opened_file, of volume part path offset sz h] by (simp add: same)
  have b: "\<not> fst ?r \<Longrightarrow> \<exists>k. k * chunk_cap < unat sz \<and>
            \<not> chunk_ok volume part path h [] offset sz k \<and>
            (\<forall>j < k. chunk_ok volume part path h [] offset sz j) \<and>
            files (snd ?r) path = Some (volume_bytes volume part offset (of_nat (k * chunk_cap))) \<and>
            trace (snd ?r)
              = trace h @ Opened path True # transfer_events path offset (replicate k chunk_cap) @
                  failure_events volume part path (offset + of_nat (k * chunk_cap))
                    (of_nat (min chunk_cap (unat sz - k * chunk_cap)))"
    using loop_failure [OF opened_file, of volume part path offset sz h] by (simp add: same)
  from a b True show ?thesis unfolding eq by blast
qed

text \<open>
  C10. For \<open>size = 0\<close>, \<open>ExportData\<close> only opens the destination: it succeeds exactly when
  the file opens and then leaves an empty file there; its whole effect is the open, with
  no Volume read and no write, whatever the Volume is.
\<close>

theorem ExportData_empty:
  "ExportData volume part offset 0 path h =
     (if open_ok h path
      then (True, log_event (Opened path True) (h\<lparr>files := (files h)(path \<mapsto> [])\<rparr>))
      else (False, log_event (Opened path False) h))"
  by (simp add: ExportData_open ExportData_open_fail loop_done)

lemma example_bytes: "volume_bytes example_volume () 0x10 3 = [0x10, 0x11, 0x12]"
  by (simp add: volume_bytes_def example_volume_def upt_3)

lemma chunk_lengths_3: "chunk_lengths 3 = [3]"
  by (simp add: chunk_lengths_def chunk_cap_def)

lemma short_bytes: "volume_bytes short_volume () 0x10 3 = [0x10, 0x11, 0x12]"
  by (simp add: volume_bytes_def short_volume_def upt_3)

theorem ExportData_success_witness:
  "open_ok example_host ''out.bin'' \<and>
   chunk_ok short_volume () ''out.bin'' example_host [] 0x10 3 0 \<and>
   \<not> readable short_volume () 0x10 200 \<and>
   fst (ExportData short_volume () 0x10 3 ''out.bin'' example_host) \<and>
   files (snd (ExportData short_volume () 0x10 3 ''out.bin'' example_host)) ''out.bin''
     = Some [0x10, 0x11, 0x12] \<and>
   trace (snd (ExportData short_volume () 0x10 3 ''out.bin'' example_host))
     = [Opened ''out.bin'' True, VolumeRead 0x10 3 True, Wrote ''out.bin'' 3 True]"
proof -
  have a: "open_ok example_host ''out.bin''" by (simp add: example_host_def)
  have c0: "chunk_ok short_volume () ''out.bin'' example_host [] 0x10 3 0"
    by (simp add: chunk_ok_def short_volume_def example_host_def chunk_cap_def)
  have far: "\<not> readable short_volume () 0x10 200" by (simp add: short_volume_def)
  have b: "\<forall>k. k * chunk_cap < unat (3 :: u64) \<longrightarrow>
      chunk_ok short_volume () ''out.bin'' example_host [] 0x10 3 k"
  proof (intro allI impI)
    fix k assume "k * chunk_cap < unat (3 :: u64)"
    then have "k = 0" by (cases k) (simp_all add: chunk_cap_def)
    with c0 show "chunk_ok short_volume () ''out.bin'' example_host [] 0x10 3 k" by simp
  qed
  have t: "trace example_host = []" by (simp add: example_host_def)
  from ExportData_success [OF a b] a c0 far
  show ?thesis by (simp add: short_bytes chunk_lengths_3 t)
qed

text \<open>
  C4 as stated fails on a host where the file opens and writes fail: every Volume read
  succeeds, and \<open>ExportData\<close> returns failure and leaves an empty file.
\<close>

theorem ExportData_write_failure_counterexample:
  "open_ok write_fail_host ''out.bin'' \<and>
   (\<forall>off len. readable example_volume () off len) \<and>
   \<not> fst (ExportData example_volume () 0x10 3 ''out.bin'' write_fail_host) \<and>
   files (snd (ExportData example_volume () 0x10 3 ''out.bin'' write_fail_host)) ''out.bin''
     = Some [] \<and>
   volume_bytes example_volume () 0x10 3 = [0x10, 0x11, 0x12]"
proof -
  have a: "open_ok write_fail_host ''out.bin''" by (simp add: write_fail_host_def)
  have b: "\<forall>off len. readable example_volume () off len" by (simp add: example_volume_def)
  let ?h = "log_event (Opened ''out.bin'' True)
      (write_fail_host\<lparr>files := (files write_fail_host)(''out.bin'' \<mapsto> [])\<rparr>)"
  have "ExportData_loop example_volume () ''out.bin'' 0x10 3 ?h =
      (False, log_event (Wrote ''out.bin'' (unat (min 3 0x08000000 :: u64)) False)
        (log_event (VolumeRead 0x10 (min 3 0x08000000) True) ?h))"
    by (rule loop_write_fail) (simp_all add: example_volume_def write_fail_host_def)
  then show ?thesis using a b by (simp add: ExportData_open example_bytes)
qed

theorem ExportData_failure_witness:
  "\<not> open_ok open_fail_host ''out.bin'' \<and>
   ExportData example_volume () 0x10 3 ''out.bin'' open_fail_host
     = (False, log_event (Opened ''out.bin'' False) open_fail_host) \<and>
   open_ok example_host ''out.bin'' \<and>
   \<not> fst (ExportData late_fail_volume () 0 0x08000001 ''out.bin'' example_host) \<and>
   files (snd (ExportData late_fail_volume () 0 0x08000001 ''out.bin'' example_host)) ''out.bin''
     = Some (volume_bytes late_fail_volume () 0 0x08000000) \<and>
   trace (snd (ExportData late_fail_volume () 0 0x08000001 ''out.bin'' example_host))
     = [Opened ''out.bin'' True, VolumeRead 0 0x08000000 True, Wrote ''out.bin'' 0x08000000 True,
        VolumeRead 0x08000000 1 False]"
proof -
  let ?r = "ExportData late_fail_volume () 0 0x08000001 ''out.bin'' example_host"
  have a: "\<not> open_ok open_fail_host ''out.bin''" by (simp add: open_fail_host_def)
  have b: "open_ok example_host ''out.bin''" by (simp add: example_host_def)
  have t: "trace example_host = []" by (simp add: example_host_def)
  have c0: "chunk_ok late_fail_volume () ''out.bin'' example_host [] 0 0x08000001 0"
    by (simp add: chunk_ok_def late_fail_volume_def example_host_def)
  have c1: "\<not> chunk_ok late_fail_volume () ''out.bin'' example_host [] 0 0x08000001 1"
    by (simp add: chunk_ok_def late_fail_volume_def chunk_cap_def)
  note spec = ExportData_failure [where h = example_host and path = "''out.bin''"
      and volume = late_fail_volume and part = "()" and offset = 0 and sz = "0x08000001"]
  have nok: "\<not> fst ?r"
  proof
    assume "fst ?r"
    with spec b have "chunk_ok late_fail_volume () ''out.bin'' example_host [] 0 0x08000001 1"
      by (simp add: chunk_cap_def)
    with c1 show False ..
  qed
  with spec b obtain k where k: "k * chunk_cap < unat (0x08000001 :: u64)"
    and bad: "\<not> chunk_ok late_fail_volume () ''out.bin'' example_host [] 0 0x08000001 k"
    and fk: "files (snd ?r) ''out.bin''
        = Some (volume_bytes late_fail_volume () 0 (of_nat (k * chunk_cap)))"
    and tk: "trace (snd ?r)
        = trace example_host @ Opened ''out.bin'' True #
            transfer_events ''out.bin'' 0 (replicate k chunk_cap) @
            failure_events late_fail_volume () ''out.bin'' (0 + of_nat (k * chunk_cap))
              (of_nat (min chunk_cap (unat (0x08000001 :: u64) - k * chunk_cap)))"
    by blast
  from k have "k < 2" by (simp add: chunk_cap_def)
  with bad c0 have k1: "k = 1" by (cases k) auto
  have fe: "failure_events late_fail_volume () ''out.bin'' 0x08000000 1
      = [VolumeRead 0x08000000 1 False]"
    by (simp add: failure_events_def late_fail_volume_def)
  from fk tk have "files (snd ?r) ''out.bin'' = Some (volume_bytes late_fail_volume () 0 0x08000000)"
    and "trace (snd ?r) = [Opened ''out.bin'' True, VolumeRead 0 0x08000000 True,
        Wrote ''out.bin'' 0x08000000 True, VolumeRead 0x08000000 1 False]"
    unfolding k1 by (simp_all add: chunk_cap_def t fe)
  with a b nok ExportData_failure [where h = open_fail_host and path = "''out.bin''"
      and volume = example_volume and part = "()" and offset = "0x10" and sz = 3]
  show ?thesis by simp
qed

theorem ExportData_empty_witness:
  "open_ok example_host ''out.bin'' \<and>
   fst (ExportData example_volume () 7 0 ''out.bin'' example_host) \<and>
   files (snd (ExportData example_volume () 7 0 ''out.bin'' example_host)) ''out.bin'' = Some [] \<and>
   trace (snd (ExportData example_volume () 7 0 ''out.bin'' example_host))
     = [Opened ''out.bin'' True] \<and>
   ExportData example_volume () 7 0 ''out.bin'' open_fail_host
     = (False, log_event (Opened ''out.bin'' False) open_fail_host)"
  using ExportData_empty [where volume = example_volume and part = "()" and offset = 7
      and path = "''out.bin''" and h = example_host]
    ExportData_empty [where volume = example_volume and part = "()" and offset = 7
      and path = "''out.bin''" and h = open_fail_host]
  by (simp add: example_host_def open_fail_host_def)

section \<open>Bulk Data Exporter: success of small transfers\<close>

lemma ExportData_ok_iff:
  assumes "open_ok h path"
  shows "fst (ExportData volume part offset sz path h) \<longleftrightarrow>
         (\<forall>k. k * chunk_cap < unat sz \<longrightarrow> chunk_ok volume part path h [] offset sz k)"
proof -
  let ?h = "log_event (Opened path True) (h\<lparr>files := (files h)(path \<mapsto> [])\<rparr>)"
  let ?r = "ExportData_loop volume part path offset sz ?h"
  have eq: "ExportData volume part offset sz path h = ?r"
    by (rule ExportData_open [OF assms])
  have same: "chunk_ok volume part path ?h [] offset sz k = chunk_ok volume part path h [] offset sz k"
    for k by (simp add: chunk_ok_def)
  have a: "fst ?r \<Longrightarrow> \<forall>k. k * chunk_cap < unat sz \<longrightarrow> chunk_ok volume part path h [] offset sz k"
    using loop_success [OF opened_file, of volume part path offset sz h] by (simp add: same)
  have b: "\<not> fst ?r \<Longrightarrow> \<exists>k. k * chunk_cap < unat sz \<and>
            \<not> chunk_ok volume part path h [] offset sz k"
    using loop_failure [OF opened_file, of volume part path offset sz h] by (simp add: same) blast
  from a b show ?thesis unfolding eq by blast
qed

lemma ExportData_small_ok:
  assumes "open_ok h path" and "unat sz \<le> chunk_cap"
    and "readable volume part offset sz"
    and "write_ok h path [] (volume_bytes volume part offset sz)"
  shows "fst (ExportData volume part offset sz path h)"
proof -
  have "chunk_ok volume part path h [] offset sz k" if "k * chunk_cap < unat sz" for k
  proof -
    from that assms(2) have "k = 0" by (cases k) auto
    moreover have "min sz 0x08000000 = sz"
      using assms(2) by (simp add: word_unat_eq_iff unat_read_size)
    ultimately show ?thesis using assms(3,4) by (simp add: chunk_ok_0)
  qed
  then show ?thesis by (simp add: ExportData_ok_iff [OF assms(1)])
qed

section \<open>System Data Exporter: lemmas\<close>

lemma ExportApploader_cases:
  "ExportApploader IsDisc volume part path h = (False, h) \<or>
   (\<exists>sz. ExportApploader IsDisc volume part path h = ExportData volume part 0x2440 sz path h)"
  by (auto simp: ExportApploader_def Let_def split: option.splits)

lemma ExportDOL_cases:
  "ExportDOL IsDisc volume part path h = (False, h) \<or>
   (\<exists>off sz. GetBootDOLOffset IsDisc volume part = Some off \<and>
       GetBootDOLSize IsDisc volume part off = Some sz \<and>
       ExportDOL IsDisc volume part path h = ExportData volume part off (ucast sz) path h)"
  by (auto simp: ExportDOL_def split: option.splits)

lemma ExportApploader_frame:
  "q \<noteq> path \<Longrightarrow> files (snd (ExportApploader IsDisc volume part path h)) q = files h q"
  using ExportApploader_cases [of IsDisc volume part path h] ExportData_frame
  by (metis snd_conv)

lemma ExportDOL_frame:
  "q \<noteq> path \<Longrightarrow> files (snd (ExportDOL IsDisc volume part path h)) q = files h q"
  using ExportDOL_cases [of IsDisc volume part path h] ExportData_frame
  by (metis snd_conv)

lemma ExportApploader_success:
  assumes "fst (ExportApploader IsDisc volume part path h)"
  shows "IsDisc (GetVolumeType volume) \<and> readable volume part 0x2454 4 \<and>
         readable volume part 0x2458 4 \<and>
         files (snd (ExportApploader IsDisc volume part path h)) path =
           Some (volume_bytes volume part 0x2440
             (of_nat ((big_endian_u32_at volume part 0x2454 +
                       big_endian_u32_at volume part 0x2458 + 0x20) mod 2 ^ 32)))"
proof -
  have sz: "(ucast (of_nat a + (of_nat b + 0x20) :: u32) :: u64) = of_nat ((a + b + 0x20) mod 2 ^ 32)"
    for a b :: nat
  proof -
    have "unat (of_nat a + (of_nat b + 0x20) :: u32) = (a + b + 0x20) mod 2 ^ 32"
      by (simp add: unat_word_ariths unat_of_nat mod_simps add.assoc)
    moreover have "(ucast w :: u64) = of_nat (unat w)" for w :: u32 by simp
    ultimately show ?thesis by (simp only:)
  qed
  show ?thesis
    using assms
    by (auto simp: ExportApploader_def Let_def ReadSwapped_u32_eq sz ExportData_success_content
        split: if_splits)
qed

lemma ExportDOL_success:
  assumes "fst (ExportDOL IsDisc volume part path h)"
  shows "\<exists>off sz. GetBootDOLOffset IsDisc volume part = Some off \<and>
       GetBootDOLSize IsDisc volume part off = Some sz \<and>
       files (snd (ExportDOL IsDisc volume part path h)) path =
         Some (volume_bytes volume part off (ucast sz))"
  using assms ExportDOL_cases [of IsDisc volume part path h] ExportData_success_content
  by (metis fst_conv)

section \<open>System Data Exporter: results\<close>

text \<open>
  C9. \<open>ExportSystemData\<close> runs \<open>ExportApploader\<close> to \<open>export_folder/apploader.img\<close> and then,
  whatever that returned, \<open>ExportDOL\<close> to \<open>export_folder/boot.dol\<close>; it returns success
  exactly when both returned success. Whenever one of the two succeeded its file is there
  at the end with the artifact's bytes, also when the other one failed.
\<close>

theorem ExportSystemData_spec:
  "let r1 = ExportApploader IsDisc volume part (export_folder @ ''/apploader.img'') h;
       r2 = ExportDOL IsDisc volume part (export_folder @ ''/boot.dol'') (snd r1);
       r = ExportSystemData IsDisc volume part export_folder h
   in r = (fst r1 \<and> fst r2, snd r2) \<and>
      (fst r1 \<longrightarrow>
         files (snd r) (export_folder @ ''/apploader.img'') =
           Some (volume_bytes volume part 0x2440
             (of_nat ((big_endian_u32_at volume part 0x2454 +
                       big_endian_u32_at volume part 0x2458 + 0x20) mod 2 ^ 32)))) \<and>
      (fst r2 \<longrightarrow>
         (\<exists>off sz. GetBootDOLOffset IsDisc volume part = Some off \<and>
            GetBootDOLSize IsDisc volume part off = Some sz \<and>
            files (snd r) (export_folder @ ''/boot.dol'') =
              Some (volume_bytes volume part off (ucast sz))))"
proof -
  let ?a = "export_folder @ ''/apploader.img''" and ?d = "export_folder @ ''/boot.dol''"
  let ?r1 = "ExportApploader IsDisc volume part ?a h"
  let ?r2 = "ExportDOL IsDisc volume part ?d (snd ?r1)"
  have neq: "?a \<noteq> ?d" by simp
  have r: "ExportSystemData IsDisc volume part export_folder h = (fst ?r1 \<and> fst ?r2, snd ?r2)"
    by (simp add: ExportSystemData_def Let_def split_beta)
  have keep: "files (snd ?r2) ?a = files (snd ?r1) ?a"
    by (rule ExportDOL_frame [OF neq])
  have a: "fst ?r1 \<Longrightarrow> files (snd ?r2) ?a =
           Some (volume_bytes volume part 0x2440
             (of_nat ((big_endian_u32_at volume part 0x2454 +
                       big_endian_u32_at volume part 0x2458 + 0x20) mod 2 ^ 32)))"
    unfolding keep using ExportApploader_success [of IsDisc volume part ?a h] by blast
  have d: "fst ?r2 \<Longrightarrow> \<exists>off sz. GetBootDOLOffset IsDisc volume part = Some off \<and>
            GetBootDOLSize IsDisc volume part off = Some sz \<and>
            files (snd ?r2) ?d = Some (volume_bytes volume part off (ucast sz))"
    by (rule ExportDOL_success)
  from a d show ?thesis unfolding Let_def r by simp
qed

lemma no_apploader_offset: "GetBootDOLOffset example_IsDisc no_apploader_disc () = Some 0"
  by (simp add: GetBootDOLOffset_def ReadSwapped_u32_eq Let_def example_IsDisc_def
      no_apploader_disc_def big_endian_u32_at_def)

lemma no_apploader_size: "GetBootDOLSize example_IsDisc no_apploader_disc () 0 = Some 0x150"
  by (simp add: GetBootDOLSize_fold example_IsDisc_def no_apploader_disc_def segment_fields_0
      wrapped_end_def big_endian_u32_at_def)

lemma no_apploader_fails:
  "ExportApploader example_IsDisc no_apploader_disc () path h = (False, h)"
  by (simp add: ExportApploader_def ReadSwapped_u32_eq Let_def example_IsDisc_def
      no_apploader_disc_def)

lemma no_apploader_dol:
  "fst (ExportDOL example_IsDisc no_apploader_disc () ''out/boot.dol'' example_host)"
proof -
  have "fst (ExportData no_apploader_disc () 0 0x150 ''out/boot.dol'' example_host)"
    by (rule ExportData_small_ok)
      (simp_all add: example_host_def no_apploader_disc_def chunk_cap_def)
  then show ?thesis
    by (simp add: ExportDOL_def no_apploader_offset no_apploader_size)
      (simp add: example_IsDisc_def no_apploader_disc_def)
qed

lemma no_dol_apploader:
  "fst (ExportApploader example_IsDisc no_dol_disc () ''out/apploader.img'' example_host)"
proof -
  have "fst (ExportData no_dol_disc () 0x2440 0x20 ''out/apploader.img'' example_host)"
    by (rule ExportData_small_ok)
      (simp_all add: example_host_def no_dol_disc_def chunk_cap_def)
  then show ?thesis
    by (simp add: ExportApploader_def ReadSwapped_u32_eq Let_def example_IsDisc_def
      no_dol_disc_def big_endian_u32_at_def)
qed

lemma no_dol_fails: "ExportDOL example_IsDisc no_dol_disc () path h = (False, h)"
  by (simp add: ExportDOL_def GetBootDOLOffset_def ReadSwapped_u32_eq Let_def
      example_IsDisc_def no_dol_disc_def)

theorem ExportSystemData_spec_witness:
  "\<not> fst (ExportApploader example_IsDisc no_apploader_disc () ''out/apploader.img'' example_host) \<and>
   fst (ExportDOL example_IsDisc no_apploader_disc () ''out/boot.dol'' example_host) \<and>
   \<not> fst (ExportSystemData example_IsDisc no_apploader_disc () ''out'' example_host) \<and>
   files (snd (ExportSystemData example_IsDisc no_apploader_disc () ''out'' example_host))
       ''out/boot.dol'' = Some (volume_bytes no_apploader_disc () 0 0x150) \<and>
   fst (ExportApploader example_IsDisc no_dol_disc () ''out/apploader.img'' example_host) \<and>
   \<not> fst (ExportSystemData example_IsDisc no_dol_disc () ''out'' example_host) \<and>
   files (snd (ExportSystemData example_IsDisc no_dol_disc () ''out'' example_host))
       ''out/apploader.img'' = Some (volume_bytes no_dol_disc () 0x2440 0x20)"
proof -
  have be: "big_endian_u32_at no_dol_disc () a = 0" for a
    by (simp add: big_endian_u32_at_def no_dol_disc_def)
  have p: "''out'' @ ''/apploader.img'' = ''out/apploader.img''" "''out'' @ ''/boot.dol'' = ''out/boot.dol''"
    by simp_all
  from ExportSystemData_spec [of example_IsDisc no_apploader_disc "()" "''out''" example_host]
  have A: "\<not> fst (ExportSystemData example_IsDisc no_apploader_disc () ''out'' example_host) \<and>
      files (snd (ExportSystemData example_IsDisc no_apploader_disc () ''out'' example_host))
       ''out/boot.dol'' = Some (volume_bytes no_apploader_disc () 0 0x150)"
    using no_apploader_dol
    by (auto simp add: Let_def no_apploader_fails no_apploader_offset no_apploader_size)
  from ExportSystemData_spec [of example_IsDisc no_dol_disc "()" "''out''" example_host]
  have B: "\<not> fst (ExportSystemData example_IsDisc no_dol_disc () ''out'' example_host) \<and>
      files (snd (ExportSystemData example_IsDisc no_dol_disc () ''out'' example_host))
       ''out/apploader.img'' = Some (volume_bytes no_dol_disc () 0x2440 0x20)"
    using no_dol_apploader
    by (auto simp add: Let_def no_dol_fails be)
  from A B no_apploader_dol no_dol_apploader show ?thesis
    by (simp add: no_apploader_fails)
qed

section \<open>Directory Exporter\<close>

lemma reports_append [simp]: "reports (xs @ ys) = reports xs @ reports ys"
  by (induction xs rule: reports.induct) simp_all

lemma made_paths_append [simp]: "made_paths (xs @ ys) = made_paths xs @ made_paths ys"
  by (induction xs rule: made_paths.induct) simp_all

lemma reports_transfer: "\<forall>e \<in> set es. is_transfer e \<Longrightarrow> reports es = []"
  by (induction es rule: reports.induct) simp_all

lemma made_paths_transfer: "\<forall>e \<in> set es. is_transfer e \<Longrightarrow> made_paths es = []"
  by (induction es rule: made_paths.induct) simp_all

lemma transfer_events_transfer: "\<forall>e \<in> set (transfer_events path offset ns). is_transfer e"
  by (induction ns arbitrary: offset) simp_all

lemma failure_events_transfer: "\<forall>e \<in> set (failure_events volume part path offset len). is_transfer e"
  by (simp add: failure_events_def)

lemma ExportData_trace:
  "\<exists>ext. trace (snd (ExportData volume part offset sz path h)) = trace h @ ext \<and>
         (\<forall>e \<in> set ext. is_transfer e)"
proof (cases "open_ok h path")
  case False
  then show ?thesis by (simp add: ExportData_open_fail)
next
  case True
  let ?h = "log_event (Opened path True) (h\<lparr>files := (files h)(path \<mapsto> [])\<rparr>)"
  let ?r = "ExportData_loop volume part path offset sz ?h"
  have eq: "ExportData volume part offset sz path h = ?r"
    by (rule ExportData_open [OF True])
  show ?thesis
  proof (cases "fst ?r")
    case True
    from loop_success [OF opened_file True]
    have "trace (snd ?r) = trace h @ Opened path True # transfer_events path offset (chunk_lengths (unat sz))"
      by simp
    then show ?thesis unfolding eq using transfer_events_transfer by fastforce
  next
    case False
    from loop_failure [OF opened_file False]
    obtain k where "trace (snd ?r) = trace h @ Opened path True #
        transfer_events path offset (replicate k chunk_cap) @
        failure_events volume part path (offset + of_nat (k * chunk_cap))
          (of_nat (min chunk_cap (unat sz - k * chunk_cap)))"
      by auto
    then show ?thesis unfolding eq
      using transfer_events_transfer failure_events_transfer by fastforce
  qed
qed

lemma ExportFile_frame:
  "dirs (snd (ExportFile volume part fi path h)) = dirs h \<and>
   open_ok (snd (ExportFile volume part fi path h)) = open_ok h \<and>
   write_ok (snd (ExportFile volume part fi path h)) = write_ok h \<and>
   (\<forall>q. q \<noteq> path \<longrightarrow> files (snd (ExportFile volume part fi path h)) q = files h q)"
  using ExportData_frame [of volume part _ _ path h]
  by (auto simp: ExportFile_def split: option.splits)

lemma ExportFile_trace:
  "\<exists>ext. trace (snd (ExportFile volume part fi path h)) = trace h @ ext \<and>
         (\<forall>e \<in> set ext. is_transfer e)"
  using ExportData_trace [of volume part _ _ path h]
  by (auto simp: ExportFile_def split: option.splits)

lemma ExportDirectory_eq:
  "ExportDirectory volume part directory recursive filesystem_path export_folder update_progress h =
     ExportDirectory_loop volume part (children directory) recursive filesystem_path export_folder
       update_progress (CreateFullPath (export_folder @ ''/'') h)"
  by (cases directory) simp

lemma walk_eq:
  "walk recursive filesystem_path export_folder directory =
     walk_list recursive filesystem_path export_folder (children directory)"
  by (cases directory) simp

lemma loop_Nil:
  "ExportDirectory_loop volume part [] recursive filesystem_path export_folder update_progress h = h"
  by simp

lemma loop_Cons:
  "ExportDirectory_loop volume part (file_info # rest) recursive filesystem_path export_folder
       update_progress h =
     (if update_progress (trace h) (filesystem_path @ entry_name file_info)
      then log_event (Reported (filesystem_path @ entry_name file_info) True) h
      else
        ExportDirectory_loop volume part rest recursive filesystem_path export_folder
          update_progress
          (if \<not> IsDirectory file_info then
             export_file_entry volume part file_info (export_folder @ ''/'' @ entry_name file_info)
               (log_event (Reported (filesystem_path @ entry_name file_info) False) h)
           else if recursive then
             ExportDirectory_loop volume part (children file_info) recursive
               (filesystem_path @ entry_name file_info)
               (export_folder @ ''/'' @ entry_name file_info) update_progress
               (CreateFullPath (export_folder @ ''/'' @ entry_name file_info @ ''/'')
                  (log_event (Reported (filesystem_path @ entry_name file_info) False) h))
           else log_event (Reported (filesystem_path @ entry_name file_info) False) h))"
  by (simp add: Let_def entry_name_def export_file_entry_def ExportDirectory_eq
      split: prod.splits bool.splits)

declare ExportDirectory.simps [simp del] ExportDirectory_loop.simps [simp del]

lemma size_children: "size_list size (children f) < size_list size (f # rest)"
  by (cases f) simp

lemma size_rest: "size_list size rest < size_list size (f # rest)"
  by simp

lemma CreateFullPath_fields [simp]:
  "files (CreateFullPath p h) = files h"
  "dirs (CreateFullPath p h) = dirs h \<union> set (sub_paths [] p)"
  "open_ok (CreateFullPath p h) = open_ok h" "write_ok (CreateFullPath p h) = write_ok h"
  "trace (CreateFullPath p h) = trace h @ [MadePath p]"
  by (simp_all add: CreateFullPath_def)

lemma export_file_entry_frame:
  "dirs (export_file_entry volume part fi ep h) = dirs h \<and>
   open_ok (export_file_entry volume part fi ep h) = open_ok h \<and>
   write_ok (export_file_entry volume part fi ep h) = write_ok h \<and>
   (\<forall>q. q \<noteq> ep \<longrightarrow> files (export_file_entry volume part fi ep h) q = files h q) \<and>
   (files h ep \<noteq> None \<longrightarrow> files (export_file_entry volume part fi ep h) = files h)"
  using ExportFile_frame [of volume part "Some fi" ep h]
  by (auto simp: export_file_entry_def Exists_def split: prod.splits bool.splits)

lemma transfer_not_cancel: "is_transfer e \<Longrightarrow> \<not> is_cancel e"
  by (cases e) simp_all

lemma export_file_entry_trace:
  "\<exists>ext. trace (export_file_entry volume part fi ep h) = trace h @ ext \<and>
         reports ext = [] \<and> made_paths ext = [] \<and> \<not> cancelled ext"
proof -
  from ExportFile_trace [of volume part "Some fi" ep h]
  obtain ext where e: "trace (snd (ExportFile volume part (Some fi) ep h)) = trace h @ ext"
    and t: "\<forall>e \<in> set ext. is_transfer e" by blast
  have nc: "\<not> cancelled ext" "reports ext = []" "made_paths ext = []"
    using t reports_transfer [OF t] made_paths_transfer [OF t]
    by (auto simp: cancelled_def list_ex_iff dest: transfer_not_cancel)
  show ?thesis
    using e nc
    by (auto simp: export_file_entry_def cancelled_def split: prod.splits bool.splits)
qed

lemma loop_induct [case_names Nil Cancel File Dir Skip]:
  fixes volume :: "'p Volume" and part :: 'p and recursive :: bool
    and update_progress :: "event list \<Rightarrow> string \<Rightarrow> bool"
  assumes Nil: "\<And>fp ef h. P [] fp ef h"
    and Cancel: "\<And>f rest fp ef h. update_progress (trace h) (fp @ entry_name f) \<Longrightarrow>
        P (f # rest) fp ef h"
    and File: "\<And>f rest fp ef h. \<not> update_progress (trace h) (fp @ entry_name f) \<Longrightarrow>
        \<not> IsDirectory f \<Longrightarrow>
        P rest fp ef (export_file_entry volume part f (ef @ ''/'' @ entry_name f)
                       (log_event (Reported (fp @ entry_name f) False) h)) \<Longrightarrow>
        P (f # rest) fp ef h"
    and Dir: "\<And>f rest fp ef h. \<not> update_progress (trace h) (fp @ entry_name f) \<Longrightarrow>
        IsDirectory f \<Longrightarrow> recursive \<Longrightarrow>
        P (children f) (fp @ entry_name f) (ef @ ''/'' @ entry_name f)
          (CreateFullPath (ef @ ''/'' @ entry_name f @ ''/'')
             (log_event (Reported (fp @ entry_name f) False) h)) \<Longrightarrow>
        P rest fp ef
          (ExportDirectory_loop volume part (children f) recursive (fp @ entry_name f)
             (ef @ ''/'' @ entry_name f) update_progress
             (CreateFullPath (ef @ ''/'' @ entry_name f @ ''/'')
                (log_event (Reported (fp @ entry_name f) False) h))) \<Longrightarrow>
        P (f # rest) fp ef h"
    and Skip: "\<And>f rest fp ef h. \<not> update_progress (trace h) (fp @ entry_name f) \<Longrightarrow>
        IsDirectory f \<Longrightarrow> \<not> recursive \<Longrightarrow>
        P rest fp ef (log_event (Reported (fp @ entry_name f) False) h) \<Longrightarrow>
        P (f # rest) fp ef h"
  shows "P cs fp ef h"
proof (induction "size_list size cs" arbitrary: cs fp ef h rule: less_induct)
  case (less cs fp ef h)
  show ?case
  proof (cases cs)
    case Nil
    then show ?thesis by (simp add: assms(1))
  next
    case (Cons f rest)
    have IH_rest: "P rest fp' ef' h'" for fp' ef' h'
      by (rule less.hyps) (simp add: Cons)
    have IH_children: "P (children f) fp' ef' h'" for fp' ef' h'
      by (rule less.hyps) (use size_children [of f rest] in \<open>simp add: Cons\<close>)
    show ?thesis
      unfolding Cons
    proof (cases "update_progress (trace h) (fp @ entry_name f)")
      case True
      then show "P (f # rest) fp ef h" by (rule Cancel)
    next
      case False
      show "P (f # rest) fp ef h"
      proof (cases "IsDirectory f")
        case notdir: False
        show ?thesis by (rule File [OF False notdir IH_rest])
      next
        case isdir: True
        show ?thesis
        proof (cases recursive)
          case True
          show ?thesis by (rule Dir [OF False isdir True IH_children IH_rest])
        next
          case nonrec: False
          show ?thesis by (rule Skip [OF False isdir nonrec IH_rest])
        qed
      qed
    qed
  qed
qed

lemma loop_keeps:
  "open_ok (ExportDirectory_loop volume part cs recursive fp ef update_progress h) = open_ok h \<and>
   write_ok (ExportDirectory_loop volume part cs recursive fp ef update_progress h) = write_ok h \<and>
   dirs h \<subseteq> dirs (ExportDirectory_loop volume part cs recursive fp ef update_progress h) \<and>
   (\<forall>p c. files h p = Some c \<longrightarrow>
      files (ExportDirectory_loop volume part cs recursive fp ef update_progress h) p = Some c) \<and>
   (\<exists>ext. trace (ExportDirectory_loop volume part cs recursive fp ef update_progress h)
      = trace h @ ext)"
proof (induction cs fp ef h rule: loop_induct [where volume = volume and part = part
      and recursive = recursive and update_progress = update_progress])
  case (Nil fp ef h)
  then show ?case by (simp add: loop_Nil)
next
  case (Cancel f rest fp ef h)
  then show ?case by (simp add: loop_Cons)
next
  case (File f rest fp ef h)
  let ?h1 = "log_event (Reported (fp @ entry_name f) False) h"
  let ?ep = "ef @ ''/'' @ entry_name f"
  have mono: "files h p = Some c \<Longrightarrow> files (export_file_entry volume part f ?ep ?h1) p = Some c"
    for p c
    using export_file_entry_frame [of volume part f ?ep ?h1] by (cases "p = ?ep") auto
  from export_file_entry_trace [of volume part f ?ep ?h1]
  obtain ext where "trace (export_file_entry volume part f ?ep ?h1) = trace ?h1 @ ext" by blast
  with File mono export_file_entry_frame [of volume part f ?ep ?h1]
  show ?case by (auto simp: loop_Cons)
next
  case (Dir f rest fp ef h)
  then show ?case by (auto simp: loop_Cons)
next
  case (Skip f rest fp ef h)
  then show ?case by (auto simp: loop_Cons)
qed

lemma new_events_ext: "trace h' = trace h @ ext \<Longrightarrow> new_events h h' = ext"
  by (simp add: new_events_def)

lemma loop_not_recursive:
  "dirs (ExportDirectory_loop volume part cs False fp ef update_progress h) = dirs h \<and>
   (\<forall>q. files (ExportDirectory_loop volume part cs False fp ef update_progress h) q \<noteq> files h q \<longrightarrow>
      q \<in> (\<lambda>f. ef @ ''/'' @ GetName f) ` {f \<in> set cs. \<not> IsDirectory f}) \<and>
   (\<exists>ext n. trace (ExportDirectory_loop volume part cs False fp ef update_progress h) = trace h @ ext \<and>
      made_paths ext = [] \<and>
      map fst (reports ext) = take n (map (\<lambda>f. fp @ entry_name f) cs))"
proof (induction cs fp ef h rule: loop_induct [where volume = volume and part = part
      and recursive = False and update_progress = update_progress])
  case (Nil fp ef h)
  then show ?case by (simp add: loop_Nil)
next
  case (Cancel f rest fp ef h)
  have "map fst (reports [Reported (fp @ entry_name f) True])
      = take 1 (map (\<lambda>f. fp @ entry_name f) (f # rest))" by simp
  with Cancel show ?case
    by (simp add: loop_Cons del: take_Suc_Cons) (metis made_paths.simps(1,3) )
next
  case (File f rest fp ef h)
  let ?h1 = "log_event (Reported (fp @ entry_name f) False) h"
  let ?ep = "ef @ ''/'' @ entry_name f"
  let ?h2 = "export_file_entry volume part f ?ep ?h1"
  let ?h3 = "ExportDirectory_loop volume part rest False fp ef update_progress ?h2"
  have eq: "ExportDirectory_loop volume part (f # rest) False fp ef update_progress h = ?h3"
    using File(1,2) by (simp add: loop_Cons)
  have nm: "entry_name f = GetName f" using File(2) by (simp add: entry_name_def)
  note fr = export_file_entry_frame [of volume part f ?ep ?h1]
  from export_file_entry_trace [of volume part f ?ep ?h1]
  obtain e1 where e1: "trace ?h2 = trace ?h1 @ e1" "reports e1 = []" "made_paths e1 = []"
    by blast
  from File(3) obtain e2 n where e2: "trace ?h3 = trace ?h2 @ e2" "made_paths e2 = []"
    "map fst (reports e2) = take n (map (\<lambda>f. fp @ entry_name f) rest)"
    by blast
  have d: "dirs ?h3 = dirs h" using File(3) fr by simp
  have f: "q \<in> (\<lambda>f. ef @ ''/'' @ GetName f) ` {g \<in> set (f # rest). \<not> IsDirectory g}"
    if "files ?h3 q \<noteq> files h q" for q
  proof (cases "files ?h3 q = files ?h2 q")
    case True
    with that have "files ?h2 q \<noteq> files ?h1 q" by simp
    with fr have "q = ?ep" by blast
    then show ?thesis using File(2) nm by auto
  next
    case False
    with File(3) show ?thesis by auto
  qed
  have t: "trace ?h3 = trace h @ (Reported (fp @ entry_name f) False # e1 @ e2)"
    using e1 e2 by simp
  have m: "made_paths (Reported (fp @ entry_name f) False # e1 @ e2) = []"
    using e1 e2 by simp
  have r: "map fst (reports (Reported (fp @ entry_name f) False # e1 @ e2))
      = take (Suc n) (map (\<lambda>f. fp @ entry_name f) (f # rest))"
    using e1 e2 by simp
  from d f t m r show ?case unfolding eq by blast
next
  case (Dir f rest fp ef h)
  then show ?case by simp
next
  case (Skip f rest fp ef h)
  let ?h1 = "log_event (Reported (fp @ entry_name f) False) h"
  let ?h3 = "ExportDirectory_loop volume part rest False fp ef update_progress ?h1"
  have eq: "ExportDirectory_loop volume part (f # rest) False fp ef update_progress h = ?h3"
    using Skip(1,2) by (simp add: loop_Cons)
  from Skip(4) obtain e2 n where e2: "trace ?h3 = trace ?h1 @ e2" "made_paths e2 = []"
    "map fst (reports e2) = take n (map (\<lambda>f. fp @ entry_name f) rest)"
    by blast
  have d: "dirs ?h3 = dirs h" using Skip(4) by simp
  have f: "q \<in> (\<lambda>f. ef @ ''/'' @ GetName f) ` {g \<in> set (f # rest). \<not> IsDirectory g}"
    if "files ?h3 q \<noteq> files h q" for q
    using that Skip(4) by auto
  have t: "trace ?h3 = trace h @ (Reported (fp @ entry_name f) False # e2)"
    using e2 by simp
  have m: "made_paths (Reported (fp @ entry_name f) False # e2) = []"
    using e2 by simp
  have r: "map fst (reports (Reported (fp @ entry_name f) False # e2))
      = take (Suc n) (map (\<lambda>f. fp @ entry_name f) (f # rest))"
    using e2 by simp
  from d f t m r show ?case unfolding eq by blast
qed

text \<open>
  C7. With \<open>recursive = false\<close>, \<open>ExportDirectory\<close> creates the top-level folder and nothing
  else: the only host directories added are those of \<open>export_folder/\<close>, made by the one
  call of \<open>CreateFullPath\<close>; the callback is invoked for direct children only, in their
  order, so no child directory is descended into; and a host file changes only at the
  export path of a direct child that is a file.
\<close>

theorem ExportDirectory_not_recursive:
  "dirs (ExportDirectory volume part directory False filesystem_path export_folder update_progress h)
     = dirs h \<union> set (sub_paths [] (export_folder @ ''/'')) \<and>
   made_paths (new_events h
       (ExportDirectory volume part directory False filesystem_path export_folder update_progress h))
     = [export_folder @ ''/''] \<and>
   (\<exists>n. map fst (reports (new_events h
       (ExportDirectory volume part directory False filesystem_path export_folder update_progress h)))
     = take n (map (\<lambda>f. filesystem_path @ entry_name f) (children directory))) \<and>
   (\<forall>q. files (ExportDirectory volume part directory False filesystem_path export_folder
                 update_progress h) q \<noteq> files h q \<longrightarrow>
      q \<in> (\<lambda>f. export_folder @ ''/'' @ GetName f) ` {f \<in> set (children directory). \<not> IsDirectory f})"
proof -
  let ?h0 = "CreateFullPath (export_folder @ ''/'') h"
  let ?h' = "ExportDirectory_loop volume part (children directory) False filesystem_path
      export_folder update_progress ?h0"
  note L = loop_not_recursive [of volume part "children directory" filesystem_path export_folder
      update_progress ?h0]
  from L obtain ext n where ext: "trace ?h' = trace ?h0 @ ext" "made_paths ext = []"
    "map fst (reports ext) = take n (map (\<lambda>f. filesystem_path @ entry_name f) (children directory))"
    by blast
  have ne: "new_events h ?h' = MadePath (export_folder @ ''/'') # ext"
    by (rule new_events_ext) (simp add: ext)
  from L ext show ?thesis
    unfolding ExportDirectory_eq ne by auto
qed

lemma ExportData_small:
  assumes "open_ok h path" and "sz \<noteq> 0" and "unat sz \<le> chunk_cap"
    and "readable volume part offset sz"
    and "write_ok h path [] (volume_bytes volume part offset sz)"
  shows "ExportData volume part offset sz path h =
     (True, h\<lparr>files := (files h)(path \<mapsto> volume_bytes volume part offset sz),
              trace := trace h @ [Opened path True, VolumeRead offset sz True,
                                  Wrote path (unat sz) True]\<rparr>)"
proof -
  let ?h = "log_event (Opened path True) (h\<lparr>files := (files h)(path \<mapsto> [])\<rparr>)"
  have m: "min sz 0x08000000 = sz"
    using assms(3) by (simp add: word_unat_eq_iff unat_read_size)
  have "ExportData_loop volume part path offset sz ?h =
      ExportData_loop volume part path (offset + min sz 0x08000000) (sz - min sz 0x08000000)
       (?h\<lparr>files := (files ?h)(path \<mapsto> [] @ volume_bytes volume part offset (min sz 0x08000000)),
          trace := trace ?h @ [VolumeRead offset (min sz 0x08000000) True,
                              Wrote path (unat (min sz 0x08000000 :: u64)) True]\<rparr>)"
    by (rule loop_step) (use assms in \<open>simp_all add: m\<close>)
  then show ?thesis
    by (simp add: ExportData_open [OF assms(1)] m loop_done log_event_def)
qed

lemma upt_2: "[0..<2] = [0, 1]" by code_simp

lemma y_bytes: "volume_bytes example_volume () 0x20 2 = [0x20, 0x21]"
  by (simp add: volume_bytes_def example_volume_def upt_2)

lemma x_bytes: "volume_bytes example_volume () 0x10 2 = [0x10, 0x11]"
  by (simp add: volume_bytes_def example_volume_def upt_2)

lemma export_y:
  "files h ''out/y'' = None \<Longrightarrow> open_ok h = (\<lambda>_. True) \<Longrightarrow> write_ok h = (\<lambda>_ _ _. True) \<Longrightarrow>
   export_file_entry example_volume () (FileInfo ''y'' 0x20 2 False []) ''out/y'' h =
     h\<lparr>files := (files h)(''out/y'' \<mapsto> [0x20, 0x21]),
       trace := trace h @ [Opened ''out/y'' True, VolumeRead 0x20 2 True, Wrote ''out/y'' 2 True]\<rparr>"
  by (simp add: export_file_entry_def Exists_def ExportFile_def ExportData_small chunk_cap_def
      example_volume_def y_bytes [unfolded example_volume_def])

lemma run_not_recursive:
  "ExportDirectory example_volume () example_tree False [] ''out'' never_cancel example_host =
     example_host\<lparr>files := [''out/y'' \<mapsto> [0x20, 0x21]], dirs := {''out/''},
       trace := [MadePath ''out/'', Reported ''A/'' False, Reported ''y'' False,
                 Opened ''out/y'' True, VolumeRead 0x20 2 True, Wrote ''out/y'' 2 True]\<rparr>"
  by (simp add: ExportDirectory_eq example_tree_def loop_Cons loop_Nil entry_name_def
      never_cancel_def export_y log_event_def CreateFullPath_def example_host_def)

lemma cancelled_simps [simp]:
  "cancelled [] = False"
  "cancelled (e # es) = (is_cancel e \<or> cancelled es)"
  "cancelled (xs @ ys) = (cancelled xs \<or> cancelled ys)"
  by (auto simp: cancelled_def)

lemma ExportData_file_exists:
  "open_ok h path \<Longrightarrow> files (snd (ExportData volume part offset sz path h)) path \<noteq> None"
proof -
  assume o: "open_ok h path"
  let ?h = "log_event (Opened path True) (h\<lparr>files := (files h)(path \<mapsto> [])\<rparr>)"
  show ?thesis
    unfolding ExportData_open [OF o]
    using loop_success [OF opened_file, of volume part path offset sz h]
      loop_failure [OF opened_file, of volume part path offset sz h]
    by (cases "fst (ExportData_loop volume part path offset sz ?h)") auto
qed

lemma export_file_entry_exists:
  "\<not> IsDirectory f \<Longrightarrow>
   files (export_file_entry volume part f ep h) ep \<noteq> None \<or> \<not> open_ok h ep"
  using ExportData_file_exists [of h ep volume part "GetOffset f" "GetSize f"]
  by (auto simp: export_file_entry_def Exists_def ExportFile_def split: prod.splits bool.splits)

lemma export_file_entry_cannot_open:
  "\<not> open_ok h ep \<Longrightarrow> files (export_file_entry volume part f ep h) = files h"
  by (auto simp: export_file_entry_def Exists_def ExportFile_def ExportData_open_fail
      split: prod.splits bool.splits)

lemma loop_uncancelled:
  "\<exists>ext. trace (ExportDirectory_loop volume part cs recursive fp ef update_progress h) = trace h @ ext \<and>
     (\<not> cancelled ext \<longrightarrow>
        reports ext = map (\<lambda>(p, ep, d). (p, False)) (walk_list recursive fp ef cs) \<and>
        (\<forall>(p, ep, d) \<in> set (walk_list recursive fp ef cs). \<not> d \<longrightarrow>
           files (ExportDirectory_loop volume part cs recursive fp ef update_progress h) ep \<noteq> None \<or>
           \<not> open_ok h ep))"
proof (induction cs fp ef h rule: loop_induct [where volume = volume and part = part
      and recursive = recursive and update_progress = update_progress])
  case (Nil fp ef h)
  then show ?case by (simp add: loop_Nil)
next
  case (Cancel f rest fp ef h)
  show ?case
    by (rule exI [of _ "[Reported (fp @ entry_name f) True]"]) (simp add: loop_Cons Cancel)
next
  case (File f rest fp ef h)
  let ?p = "fp @ entry_name f"
  let ?h1 = "log_event (Reported ?p False) h"
  let ?ep = "ef @ ''/'' @ entry_name f"
  let ?h2 = "export_file_entry volume part f ?ep ?h1"
  let ?h3 = "ExportDirectory_loop volume part rest recursive fp ef update_progress ?h2"
  have eq: "ExportDirectory_loop volume part (f # rest) recursive fp ef update_progress h = ?h3"
    using File(1,2) by (simp add: loop_Cons)
  note fr = export_file_entry_frame [of volume part f ?ep ?h1]
  from export_file_entry_trace [of volume part f ?ep ?h1]
  obtain e1 where e1: "trace ?h2 = trace ?h1 @ e1" "reports e1 = []" "\<not> cancelled e1"
    by blast
  from File(3) obtain e2 where e2: "trace ?h3 = trace ?h2 @ e2"
    and u: "\<not> cancelled e2 \<Longrightarrow>
        reports e2 = map (\<lambda>(p, ep, d). (p, False)) (walk_list recursive fp ef rest) \<and>
        (\<forall>(p, ep, d) \<in> set (walk_list recursive fp ef rest). \<not> d \<longrightarrow>
           files ?h3 ep \<noteq> None \<or> \<not> open_ok ?h2 ep)"
    by blast
  have here: "files ?h3 ?ep \<noteq> None \<or> \<not> open_ok h ?ep"
    using export_file_entry_exists [OF File(2), of volume part ?ep ?h1]
      loop_keeps [of volume part rest recursive fp ef update_progress ?h2]
    by auto
  have t: "trace ?h3 = trace h @ (Reported ?p False # e1 @ e2)"
    using e1 e2 by simp
  have "reports (Reported ?p False # e1 @ e2)
          = map (\<lambda>(p, ep, d). (p, False)) (walk_list recursive fp ef (f # rest)) \<and>
        (\<forall>(p, ep, d) \<in> set (walk_list recursive fp ef (f # rest)). \<not> d \<longrightarrow>
           files ?h3 ep \<noteq> None \<or> \<not> open_ok h ep)"
    if "\<not> cancelled (Reported ?p False # e1 @ e2)"
    using that u e1 here fr File(2) by auto
  with t show ?case unfolding eq by blast
next
  case (Dir f rest fp ef h)
  let ?p = "fp @ entry_name f"
  let ?h1 = "log_event (Reported ?p False) h"
  let ?ep = "ef @ ''/'' @ entry_name f"
  let ?h0 = "CreateFullPath (ef @ ''/'' @ entry_name f @ ''/'') ?h1"
  let ?h2 = "ExportDirectory_loop volume part (children f) recursive ?p ?ep update_progress ?h0"
  let ?h3 = "ExportDirectory_loop volume part rest recursive fp ef update_progress ?h2"
  have eq: "ExportDirectory_loop volume part (f # rest) recursive fp ef update_progress h = ?h3"
    using Dir(1,2,3) by (simp add: loop_Cons)
  from Dir(4) obtain e1 where e1: "trace ?h2 = trace ?h0 @ e1"
    and u1: "\<not> cancelled e1 \<Longrightarrow>
        reports e1 = map (\<lambda>(p, ep, d). (p, False)) (walk_list recursive ?p ?ep (children f)) \<and>
        (\<forall>(p, ep, d) \<in> set (walk_list recursive ?p ?ep (children f)). \<not> d \<longrightarrow>
           files ?h2 ep \<noteq> None \<or> \<not> open_ok ?h0 ep)"
    by blast
  from Dir(5) obtain e2 where e2: "trace ?h3 = trace ?h2 @ e2"
    and u2: "\<not> cancelled e2 \<Longrightarrow>
        reports e2 = map (\<lambda>(p, ep, d). (p, False)) (walk_list recursive fp ef rest) \<and>
        (\<forall>(p, ep, d) \<in> set (walk_list recursive fp ef rest). \<not> d \<longrightarrow>
           files ?h3 ep \<noteq> None \<or> \<not> open_ok ?h2 ep)"
    by blast
  note k2 = loop_keeps [of volume part "children f" recursive ?p ?ep update_progress ?h0]
  note k3 = loop_keeps [of volume part rest recursive fp ef update_progress ?h2]
  have ok2: "open_ok ?h2 = open_ok h" using k2 by simp
  have mono: "files ?h2 q \<noteq> None \<Longrightarrow> files ?h3 q \<noteq> None" for q using k3 by auto
  have t: "trace ?h3 = trace h @ (Reported ?p False # MadePath (ef @ ''/'' @ entry_name f @ ''/'') # e1 @ e2)"
    using e1 e2 by simp
  have "reports (Reported ?p False # MadePath (ef @ ''/'' @ entry_name f @ ''/'') # e1 @ e2)
          = map (\<lambda>(p, ep, d). (p, False)) (walk_list recursive fp ef (f # rest)) \<and>
        (\<forall>(p, ep, d) \<in> set (walk_list recursive fp ef (f # rest)). \<not> d \<longrightarrow>
           files ?h3 ep \<noteq> None \<or> \<not> open_ok h ep)"
    if nc: "\<not> cancelled (Reported ?p False # MadePath (ef @ ''/'' @ entry_name f @ ''/'') # e1 @ e2)"
  proof -
    from nc have n1: "\<not> cancelled e1" and n2: "\<not> cancelled e2" by simp_all
    from u1 [OF n1] have r1: "reports e1
        = map (\<lambda>(p, ep, d). (p, False)) (walk_list recursive ?p ?ep (children f))"
      and f1: "\<forall>(p, ep, d) \<in> set (walk_list recursive ?p ?ep (children f)). \<not> d \<longrightarrow>
           files ?h3 ep \<noteq> None \<or> \<not> open_ok h ep"
      using mono by (auto simp del: CreateFullPath_fields simp add: CreateFullPath_fields(3))
    from u2 [OF n2] have r2: "reports e2
        = map (\<lambda>(p, ep, d). (p, False)) (walk_list recursive fp ef rest)"
      and f2: "\<forall>(p, ep, d) \<in> set (walk_list recursive fp ef rest). \<not> d \<longrightarrow>
           files ?h3 ep \<noteq> None \<or> \<not> open_ok h ep"
      unfolding ok2 by auto
    show ?thesis using r1 r2 f1 f2 Dir(2,3) by (auto simp: walk_eq)
  qed
  with t show ?case unfolding eq by blast
next
  case (Skip f rest fp ef h)
  let ?p = "fp @ entry_name f"
  let ?h1 = "log_event (Reported ?p False) h"
  let ?h3 = "ExportDirectory_loop volume part rest recursive fp ef update_progress ?h1"
  have eq: "ExportDirectory_loop volume part (f # rest) recursive fp ef update_progress h = ?h3"
    using Skip(1,2,3) by (simp add: loop_Cons)
  from Skip(4) obtain e2 where e2: "trace ?h3 = trace ?h1 @ e2"
    and u: "\<not> cancelled e2 \<Longrightarrow>
        reports e2 = map (\<lambda>(p, ep, d). (p, False)) (walk_list recursive fp ef rest) \<and>
        (\<forall>(p, ep, d) \<in> set (walk_list recursive fp ef rest). \<not> d \<longrightarrow>
           files ?h3 ep \<noteq> None \<or> \<not> open_ok ?h1 ep)"
    by blast
  have t: "trace ?h3 = trace h @ (Reported ?p False # e2)"
    using e2 by simp
  have "reports (Reported ?p False # e2)
          = map (\<lambda>(p, ep, d). (p, False)) (walk_list recursive fp ef (f # rest)) \<and>
        (\<forall>(p, ep, d) \<in> set (walk_list recursive fp ef (f # rest)). \<not> d \<longrightarrow>
           files ?h3 ep \<noteq> None \<or> \<not> open_ok h ep)"
    if "\<not> cancelled (Reported ?p False # e2)"
    using that u Skip(2,3) by auto
  with t show ?case unfolding eq by blast
qed

lemma loop_nothing_to_write:
  "(\<forall>(p, ep, d) \<in> set (walk_list recursive fp ef cs). \<not> d \<longrightarrow>
      files h ep \<noteq> None \<or> \<not> open_ok h ep) \<Longrightarrow>
   files (ExportDirectory_loop volume part cs recursive fp ef update_progress h) = files h"
proof (induction cs fp ef h rule: loop_induct [where volume = volume and part = part
      and recursive = recursive and update_progress = update_progress])
  case (Nil fp ef h)
  then show ?case by (simp add: loop_Nil)
next
  case (Cancel f rest fp ef h)
  then show ?case by (simp add: loop_Cons)
next
  case (File f rest fp ef h)
  let ?h1 = "log_event (Reported (fp @ entry_name f) False) h"
  let ?ep = "ef @ ''/'' @ entry_name f"
  let ?h2 = "export_file_entry volume part f ?ep ?h1"
  from File(2,4) have "files ?h1 ?ep \<noteq> None \<or> \<not> open_ok ?h1 ?ep" by simp
  then have same: "files ?h2 = files h"
    using export_file_entry_frame [of volume part f ?ep ?h1]
      export_file_entry_cannot_open [of ?h1 ?ep volume part f]
    by auto
  have ok: "open_ok ?h2 = open_ok h"
    using export_file_entry_frame [of volume part f ?ep ?h1] by simp
  have "files (ExportDirectory_loop volume part rest recursive fp ef update_progress ?h2) = files ?h2"
    by (rule File(3)) (use File(4) same ok in auto)
  then show ?case using File(1,2) same by (simp add: loop_Cons)
next
  case (Dir f rest fp ef h)
  let ?p = "fp @ entry_name f"
  let ?h1 = "log_event (Reported ?p False) h"
  let ?ep = "ef @ ''/'' @ entry_name f"
  let ?h0 = "CreateFullPath (ef @ ''/'' @ entry_name f @ ''/'') ?h1"
  let ?h2 = "ExportDirectory_loop volume part (children f) recursive ?p ?ep update_progress ?h0"
  have a: "files ?h2 = files ?h0"
    by (rule Dir(4)) (use Dir(2,3,6) in \<open>auto simp: walk_eq\<close>)
  have ok: "open_ok ?h2 = open_ok h"
    using loop_keeps [of volume part "children f" recursive ?p ?ep update_progress ?h0] by simp
  have "files (ExportDirectory_loop volume part rest recursive fp ef update_progress ?h2) = files ?h2"
    by (rule Dir(5)) (use Dir(6) a ok in auto)
  then show ?case using Dir(1,2,3) a by (simp add: loop_Cons)
next
  case (Skip f rest fp ef h)
  let ?h1 = "log_event (Reported (fp @ entry_name f) False) h"
  have "files (ExportDirectory_loop volume part rest recursive fp ef update_progress ?h1) = files ?h1"
    by (rule Skip(4)) (use Skip(5) in auto)
  then show ?case using Skip(1,2,3) by (simp add: loop_Cons)
qed

lemma rerun_events_append:
  "rerun_events recursive (xs @ ys) = rerun_events recursive xs @ rerun_events recursive ys"
  by (induction xs) auto

lemma skip_existing_file:
  "files h ep = Some c \<Longrightarrow>
   export_file_entry volume part fi ep h = log_event (NoticeLog (ep @ '' already exists'')) h"
  by (simp add: export_file_entry_def Exists_def)

lemma loop_rerun:
  "(\<forall>(p, ep, d) \<in> set (walk_list recursive fp ef cs). \<not> d \<longrightarrow> files h ep \<noteq> None) \<Longrightarrow>
   files (ExportDirectory_loop volume part cs recursive fp ef update_progress h) = files h \<and>
   (\<exists>ext. trace (ExportDirectory_loop volume part cs recursive fp ef update_progress h)
        = trace h @ ext \<and>
      (\<not> cancelled ext \<longrightarrow> ext = rerun_events recursive (walk_list recursive fp ef cs)))"
proof (induction cs fp ef h rule: loop_induct [where volume = volume and part = part
      and recursive = recursive and update_progress = update_progress])
  case (Nil fp ef h)
  then show ?case by (simp add: loop_Nil)
next
  case (Cancel f rest fp ef h)
  have "trace (log_event (Reported (fp @ entry_name f) True) h)
      = trace h @ [Reported (fp @ entry_name f) True] \<and>
    (\<not> cancelled [Reported (fp @ entry_name f) True] \<longrightarrow>
       [Reported (fp @ entry_name f) True]
         = rerun_events recursive (walk_list recursive fp ef (f # rest)))"
    by simp
  then show ?case using Cancel(1) unfolding loop_Cons by (simp del: walk_list.simps; blast)
next
  case (File f rest fp ef h)
  let ?p = "fp @ entry_name f"
  let ?ep = "ef @ ''/'' @ entry_name f"
  let ?h1 = "log_event (Reported ?p False) h"
  let ?h2 = "log_event (NoticeLog (?ep @ '' already exists'')) ?h1"
  let ?h3 = "ExportDirectory_loop volume part rest recursive fp ef update_progress ?h2"
  from File(2,4) obtain c where c: "files ?h1 ?ep = Some c" by auto
  have step: "export_file_entry volume part f ?ep ?h1 = ?h2"
    by (rule skip_existing_file [OF c])
  have eq: "ExportDirectory_loop volume part (f # rest) recursive fp ef update_progress h = ?h3"
    using File(1,2) step by (simp add: loop_Cons)
  have "\<forall>(p, ep, d) \<in> set (walk_list recursive fp ef rest). \<not> d \<longrightarrow> files ?h2 ep \<noteq> None"
    using File(4) by auto
  with File(3) [unfolded step] have fs: "files ?h3 = files ?h2"
    and "\<exists>ext. trace ?h3 = trace ?h2 @ ext \<and>
      (\<not> cancelled ext \<longrightarrow> ext = rerun_events recursive (walk_list recursive fp ef rest))"
    by blast+
  then obtain e2 where e2: "trace ?h3 = trace ?h2 @ e2"
    "\<not> cancelled e2 \<Longrightarrow> e2 = rerun_events recursive (walk_list recursive fp ef rest)"
    by blast
  let ?ext = "Reported ?p False # NoticeLog (?ep @ '' already exists'') # e2"
  have t: "trace ?h3 = trace h @ ?ext" using e2(1) by simp
  have r: "?ext = rerun_events recursive (walk_list recursive fp ef (f # rest))"
    if "\<not> cancelled ?ext"
    using that e2(2) File(2) by simp
  from fs t r show ?case unfolding eq by (simp del: walk_list.simps; blast)
next
  case (Dir f rest fp ef h)
  let ?p = "fp @ entry_name f"
  let ?ep = "ef @ ''/'' @ entry_name f"
  let ?h1 = "log_event (Reported ?p False) h"
  let ?h0 = "CreateFullPath (ef @ ''/'' @ entry_name f @ ''/'') ?h1"
  let ?h2 = "ExportDirectory_loop volume part (children f) recursive ?p ?ep update_progress ?h0"
  let ?h3 = "ExportDirectory_loop volume part rest recursive fp ef update_progress ?h2"
  have eq: "ExportDirectory_loop volume part (f # rest) recursive fp ef update_progress h = ?h3"
    using Dir(1,2,3) by (simp add: loop_Cons)
  have "\<forall>(p, ep, d) \<in> set (walk_list recursive ?p ?ep (children f)). \<not> d \<longrightarrow> files ?h0 ep \<noteq> None"
    using Dir(2,3,6) by (auto simp: walk_eq)
  with Dir(4) have fs2: "files ?h2 = files ?h0"
    and "\<exists>ext. trace ?h2 = trace ?h0 @ ext \<and>
      (\<not> cancelled ext \<longrightarrow> ext = rerun_events recursive (walk_list recursive ?p ?ep (children f)))"
    by blast+
  then obtain e1 where e1: "trace ?h2 = trace ?h0 @ e1"
    "\<not> cancelled e1 \<Longrightarrow> e1 = rerun_events recursive (walk_list recursive ?p ?ep (children f))"
    by blast
  have "\<forall>(p, ep, d) \<in> set (walk_list recursive fp ef rest). \<not> d \<longrightarrow> files ?h2 ep \<noteq> None"
    using Dir(6) fs2 by auto
  with Dir(5) have fs3: "files ?h3 = files ?h2"
    and "\<exists>ext. trace ?h3 = trace ?h2 @ ext \<and>
      (\<not> cancelled ext \<longrightarrow> ext = rerun_events recursive (walk_list recursive fp ef rest))"
    by blast+
  then obtain e2 where e2: "trace ?h3 = trace ?h2 @ e2"
    "\<not> cancelled e2 \<Longrightarrow> e2 = rerun_events recursive (walk_list recursive fp ef rest)"
    by blast
  let ?ext = "Reported ?p False # MadePath (ef @ ''/'' @ entry_name f @ ''/'') # e1 @ e2"
  have t: "trace ?h3 = trace h @ ?ext" using e1(1) e2(1) by simp
  have r: "?ext = rerun_events recursive (walk_list recursive fp ef (f # rest))"
    if "\<not> cancelled ?ext"
    using that e1(2) e2(2) Dir(2,3) by (simp add: walk_eq rerun_events_append)
  have fs: "files ?h3 = files h" using fs2 fs3 by simp
  from fs t r show ?case unfolding eq by (simp del: walk_list.simps; blast)
next
  case (Skip f rest fp ef h)
  let ?p = "fp @ entry_name f"
  let ?h1 = "log_event (Reported ?p False) h"
  let ?h3 = "ExportDirectory_loop volume part rest recursive fp ef update_progress ?h1"
  have eq: "ExportDirectory_loop volume part (f # rest) recursive fp ef update_progress h = ?h3"
    using Skip(1,2,3) by (simp add: loop_Cons)
  have "\<forall>(p, ep, d) \<in> set (walk_list recursive fp ef rest). \<not> d \<longrightarrow> files ?h1 ep \<noteq> None"
    using Skip(5) by auto
  with Skip(4) have fs: "files ?h3 = files ?h1"
    and "\<exists>ext. trace ?h3 = trace ?h1 @ ext \<and>
      (\<not> cancelled ext \<longrightarrow> ext = rerun_events recursive (walk_list recursive fp ef rest))"
    by blast+
  then obtain e2 where e2: "trace ?h3 = trace ?h1 @ e2"
    "\<not> cancelled e2 \<Longrightarrow> e2 = rerun_events recursive (walk_list recursive fp ef rest)"
    by blast
  let ?ext = "Reported ?p False # e2"
  have t: "trace ?h3 = trace h @ ?ext" using e2(1) by simp
  have r: "?ext = rerun_events recursive (walk_list recursive fp ef (f # rest))"
    if "\<not> cancelled ?ext"
    using that e2(2) Skip(2,3) by simp
  from fs t r show ?case unfolding eq by (simp del: walk_list.simps; blast)
qed

text \<open>
  C6, amended. \<open>ExportDirectory\<close> leaves every host file that exists when it starts with
  the content it has, whatever the callback answers. A child that is a file and whose
  export path already holds a host file is skipped with the notice
  \<open><export path> already exists\<close>, and the loop goes on with the next entry. On a host that
  holds a file at the export path of every file entry of the traversed subtree, a run
  changes the content of no file and adds none, whatever the callback answers and
  whether or not the host could open the files; if that run is not cancelled, its events
  are the creation of the export folder, one callback invocation per entry, the creation
  of each traversed subdirectory and one notice per file entry. In a run that the
  callback never cancels, the callback is invoked once for each entry of the traversed
  subtree, in the order of the traversal, every file entry then exists on the host or
  could not be opened, and running the same export again on the host that this run left,
  with any callback, changes the content of no file and adds none.
\<close>

theorem ExportDirectory_no_overwrite:
  "(\<forall>p c. files h p = Some c \<longrightarrow>
      files (ExportDirectory volume part directory recursive filesystem_path export_folder
               update_progress h) p = Some c) \<and>
   (\<not> update_progress (trace h) (filesystem_path @ entry_name file_info) \<and>
    \<not> IsDirectory file_info \<and>
    files h (export_folder @ ''/'' @ entry_name file_info) \<noteq> None \<longrightarrow>
      ExportDirectory_loop volume part (file_info # rest) recursive filesystem_path export_folder
          update_progress h
        = ExportDirectory_loop volume part rest recursive filesystem_path export_folder
            update_progress
            (log_event (NoticeLog (export_folder @ ''/'' @ entry_name file_info @ '' already exists''))
               (log_event (Reported (filesystem_path @ entry_name file_info) False) h))) \<and>
   ((\<forall>(p, ep, d) \<in> set (walk recursive filesystem_path export_folder directory).
        \<not> d \<longrightarrow> files h ep \<noteq> None) \<longrightarrow>
      files (ExportDirectory volume part directory recursive filesystem_path export_folder
               update_progress h) = files h \<and>
      (\<not> cancelled (new_events h
           (ExportDirectory volume part directory recursive filesystem_path export_folder
              update_progress h)) \<longrightarrow>
         new_events h
           (ExportDirectory volume part directory recursive filesystem_path export_folder
              update_progress h)
           = MadePath (export_folder @ ''/'') #
             rerun_events recursive (walk recursive filesystem_path export_folder directory))) \<and>
   (\<not> cancelled (new_events h
        (ExportDirectory volume part directory recursive filesystem_path export_folder
           update_progress h)) \<longrightarrow>
      reports (new_events h
        (ExportDirectory volume part directory recursive filesystem_path export_folder
           update_progress h))
        = map (\<lambda>(p, ep, d). (p, False)) (walk recursive filesystem_path export_folder directory) \<and>
      (\<forall>(p, ep, d) \<in> set (walk recursive filesystem_path export_folder directory).
         \<not> d \<longrightarrow>
           files (ExportDirectory volume part directory recursive filesystem_path export_folder
                    update_progress h) ep \<noteq> None \<or> \<not> open_ok h ep) \<and>
      (\<forall>again. files (ExportDirectory volume part directory recursive filesystem_path export_folder
                         again
                         (ExportDirectory volume part directory recursive filesystem_path
                            export_folder update_progress h))
         = files (ExportDirectory volume part directory recursive filesystem_path export_folder
                    update_progress h)))"
proof -
  let ?cs = "children directory"
  let ?h0 = "CreateFullPath (export_folder @ ''/'') h"
  let ?h1 = "ExportDirectory_loop volume part ?cs recursive filesystem_path export_folder
      update_progress ?h0"
  note keeps = loop_keeps [of volume part ?cs recursive filesystem_path export_folder
      update_progress ?h0]
  have first: "\<forall>p c. files h p = Some c \<longrightarrow> files ?h1 p = Some c"
    using keeps by simp
  have skip: "ExportDirectory_loop volume part (file_info # rest) recursive filesystem_path
          export_folder update_progress h
        = ExportDirectory_loop volume part rest recursive filesystem_path export_folder
            update_progress
            (log_event (NoticeLog (export_folder @ ''/'' @ entry_name file_info @ '' already exists''))
               (log_event (Reported (filesystem_path @ entry_name file_info) False) h))"
    if a: "\<not> update_progress (trace h) (filesystem_path @ entry_name file_info)"
      and b: "\<not> IsDirectory file_info"
      and c: "files h (export_folder @ ''/'' @ entry_name file_info) \<noteq> None"
  proof -
    let ?ep = "export_folder @ ''/'' @ entry_name file_info"
    let ?g = "log_event (Reported (filesystem_path @ entry_name file_info) False) h"
    from c obtain bytes where "files ?g ?ep = Some bytes" by auto
    then have "export_file_entry volume part file_info ?ep ?g
        = log_event (NoticeLog (?ep @ '' already exists'')) ?g"
      by (rule skip_existing_file)
    then show ?thesis using a b by (simp add: loop_Cons)
  qed
  have rerun: "files ?h1 = files h \<and>
      (\<not> cancelled (new_events h ?h1) \<longrightarrow>
         new_events h ?h1 = MadePath (export_folder @ ''/'') #
             rerun_events recursive (walk recursive filesystem_path export_folder directory))"
    if all: "\<forall>(p, ep, d) \<in> set (walk recursive filesystem_path export_folder directory).
        \<not> d \<longrightarrow> files h ep \<noteq> None"
  proof -
    from all have "\<forall>(p, ep, d) \<in> set (walk_list recursive filesystem_path export_folder ?cs).
        \<not> d \<longrightarrow> files ?h0 ep \<noteq> None"
      by (simp add: walk_eq)
    from loop_rerun [OF this, of volume part update_progress]
    obtain ext where fs: "files ?h1 = files ?h0" and t: "trace ?h1 = trace ?h0 @ ext"
      and r: "\<not> cancelled ext \<Longrightarrow>
        ext = rerun_events recursive (walk_list recursive filesystem_path export_folder ?cs)"
      by blast
    have ne: "new_events h ?h1 = MadePath (export_folder @ ''/'') # ext"
      by (rule new_events_ext) (simp add: t)
    from fs r show ?thesis unfolding ne by (simp add: walk_eq)
  qed
  from loop_uncancelled [of volume part ?cs recursive filesystem_path export_folder
      update_progress ?h0]
  obtain ext where ext: "trace ?h1 = trace ?h0 @ ext"
    and u: "\<not> cancelled ext \<Longrightarrow>
        reports ext = map (\<lambda>(p, ep, d). (p, False))
          (walk_list recursive filesystem_path export_folder ?cs) \<and>
        (\<forall>(p, ep, d) \<in> set (walk_list recursive filesystem_path export_folder ?cs). \<not> d \<longrightarrow>
           files ?h1 ep \<noteq> None \<or> \<not> open_ok ?h0 ep)"
    by blast
  have ne: "new_events h ?h1 = MadePath (export_folder @ ''/'') # ext"
    by (rule new_events_ext) (simp add: ext)
  have second: "reports (new_events h ?h1)
        = map (\<lambda>(p, ep, d). (p, False)) (walk recursive filesystem_path export_folder directory) \<and>
      (\<forall>(p, ep, d) \<in> set (walk recursive filesystem_path export_folder directory).
         \<not> d \<longrightarrow> files ?h1 ep \<noteq> None \<or> \<not> open_ok h ep) \<and>
      (\<forall>again. files (ExportDirectory_loop volume part ?cs recursive filesystem_path export_folder
                         again (CreateFullPath (export_folder @ ''/'') ?h1))
         = files ?h1)"
    if nc: "\<not> cancelled (new_events h ?h1)"
  proof -
    from nc have "\<not> cancelled ext" unfolding ne by simp
    from u [OF this] have r: "reports ext = map (\<lambda>(p, ep, d). (p, False))
          (walk_list recursive filesystem_path export_folder ?cs)"
      and ex: "\<forall>(p, ep, d) \<in> set (walk_list recursive filesystem_path export_folder ?cs). \<not> d \<longrightarrow>
           files ?h1 ep \<noteq> None \<or> \<not> open_ok ?h0 ep"
      by blast+
    have ok: "open_ok ?h1 = open_ok ?h0" using keeps by simp
    have "files (ExportDirectory_loop volume part ?cs recursive filesystem_path export_folder
                         again (CreateFullPath (export_folder @ ''/'') ?h1))
         = files (CreateFullPath (export_folder @ ''/'') ?h1)" for again
      by (rule loop_nothing_to_write) (use ex ok in auto)
    moreover from ex have "\<forall>(p, ep, d) \<in> set (walk recursive filesystem_path export_folder directory).
         \<not> d \<longrightarrow> files ?h1 ep \<noteq> None \<or> \<not> open_ok h ep"
      by (simp add: walk_eq)
    ultimately show ?thesis using r unfolding ne by (simp add: walk_eq)
  qed
  from first skip rerun second show ?thesis
    unfolding ExportDirectory_eq by blast
qed

lemma export_small_file:
  assumes "files h ep = None" and "open_ok h ep" and "sz \<noteq> 0" and "unat sz \<le> chunk_cap"
    and "readable volume part off sz" and "write_ok h ep [] (volume_bytes volume part off sz)"
  shows "export_file_entry volume part (FileInfo n off sz False cs) ep h =
     h\<lparr>files := (files h)(ep \<mapsto> volume_bytes volume part off sz),
       trace := trace h @ [Opened ep True, VolumeRead off sz True, Wrote ep (unat sz) True]\<rparr>"
  using assms by (simp add: export_file_entry_def Exists_def ExportFile_def ExportData_small)

lemma example_readable: "readable example_volume () off sz"
  by (simp add: example_volume_def)

lemma run_cancel_at_x:
  "ExportDirectory example_volume () example_tree True [] ''out'' cancel_at_x example_host =
     example_host\<lparr>files := [''out/y'' \<mapsto> [0x20, 0x21]],
       dirs := {''out/'', ''out/A/'', ''out/A//''},
       trace := [MadePath ''out/'', Reported ''A/'' False, MadePath ''out/A//'',
                 Reported ''A/x'' True, Reported ''y'' False,
                 Opened ''out/y'' True, VolumeRead 0x20 2 True, Wrote ''out/y'' 2 True]\<rparr>"
  by (simp add: ExportDirectory_eq example_tree_def loop_Cons loop_Nil entry_name_def
      cancel_at_x_def export_small_file example_readable chunk_cap_def y_bytes
      log_event_def CreateFullPath_def example_host_def insert_commute)

lemma run_cancel_from_x:
  "ExportDirectory example_volume () example_tree True [] ''out'' cancel_from_x example_host =
     example_host\<lparr>dirs := {''out/'', ''out/A/'', ''out/A//''},
       trace := [MadePath ''out/'', Reported ''A/'' False, MadePath ''out/A//'',
                 Reported ''A/x'' True, Reported ''y'' True]\<rparr>"
  by (simp add: ExportDirectory_eq example_tree_def loop_Cons loop_Nil entry_name_def
      cancel_from_x_def log_event_def CreateFullPath_def example_host_def insert_commute)

lemma run_busy:
  "ExportDirectory example_volume () example_tree True [] ''out'' never_cancel busy_host =
     busy_host\<lparr>files := [''out/y'' \<mapsto> [9], ''out/A//x'' \<mapsto> [0x10, 0x11]],
       dirs := {''out/'', ''out/A/'', ''out/A//''},
       trace := [MadePath ''out/'', Reported ''A/'' False, MadePath ''out/A//'',
                 Reported ''A/x'' False,
                 Opened ''out/A//x'' True, VolumeRead 0x10 2 True, Wrote ''out/A//x'' 2 True,
                 Reported ''y'' False, NoticeLog ''out/y already exists'']\<rparr>"
  by (simp add: ExportDirectory_eq example_tree_def loop_Cons loop_Nil entry_name_def
      never_cancel_def export_small_file skip_existing_file example_readable chunk_cap_def x_bytes
      log_event_def CreateFullPath_def busy_host_def insert_commute)

text \<open>
  C2 fails in the code. On the tree with the subdirectory \<open>A\<close> (holding \<open>x\<close>) followed by
  the file \<open>y\<close>, exported recursively, a callback that answers true for \<open>A/x\<close> only ends
  the loop over \<open>A\<close>: the \<open>return\<close> leaves the inner \<open>ExportDirectory\<close> call, whose
  caller does not learn of it. The loop over the root goes on, invokes the callback for
  \<open>y\<close> and exports \<open>out/y\<close>. A callback that keeps answering true from \<open>A/x\<close> on is
  invoked again for \<open>y\<close> as well.
\<close>

theorem ExportDirectory_cancel_not_propagated:
  "trace (ExportDirectory example_volume () example_tree True [] ''out'' cancel_at_x example_host)
     = [MadePath ''out/'', Reported ''A/'' False, MadePath ''out/A//'',
        Reported ''A/x'' True, Reported ''y'' False,
        Opened ''out/y'' True, VolumeRead 0x20 2 True, Wrote ''out/y'' 2 True] \<and>
   files example_host ''out/y'' = None \<and>
   files (ExportDirectory example_volume () example_tree True [] ''out'' cancel_at_x example_host)
     ''out/y'' = Some [0x20, 0x21] \<and>
   trace (ExportDirectory example_volume () example_tree True [] ''out'' cancel_from_x example_host)
     = [MadePath ''out/'', Reported ''A/'' False, MadePath ''out/A//'',
        Reported ''A/x'' True, Reported ''y'' True]"
  by (simp add: run_cancel_at_x run_cancel_from_x)
    (simp add: example_host_def)

lemma run_after_cancel:
  "ExportDirectory example_volume () example_tree True [] ''out'' never_cancel
     (example_host\<lparr>files := [''out/y'' \<mapsto> [0x20, 0x21]],
       dirs := {''out/'', ''out/A/'', ''out/A//''},
       trace := [MadePath ''out/'', Reported ''A/'' False, MadePath ''out/A//'',
                 Reported ''A/x'' True, Reported ''y'' False,
                 Opened ''out/y'' True, VolumeRead 0x20 2 True, Wrote ''out/y'' 2 True]\<rparr>) =
     example_host\<lparr>files := [''out/y'' \<mapsto> [0x20, 0x21], ''out/A//x'' \<mapsto> [0x10, 0x11]],
       dirs := {''out/'', ''out/A/'', ''out/A//''},
       trace := [MadePath ''out/'', Reported ''A/'' False, MadePath ''out/A//'',
                 Reported ''A/x'' True, Reported ''y'' False,
                 Opened ''out/y'' True, VolumeRead 0x20 2 True, Wrote ''out/y'' 2 True,
                 MadePath ''out/'', Reported ''A/'' False, MadePath ''out/A//'',
                 Reported ''A/x'' False,
                 Opened ''out/A//x'' True, VolumeRead 0x10 2 True, Wrote ''out/A//x'' 2 True,
                 Reported ''y'' False, NoticeLog ''out/y already exists'']\<rparr>"
  by (simp add: ExportDirectory_eq example_tree_def loop_Cons loop_Nil entry_name_def
      never_cancel_def export_small_file skip_existing_file example_readable chunk_cap_def x_bytes
      log_event_def CreateFullPath_def example_host_def insert_commute)

lemma run_cancel_once:
  "ExportDirectory example_volume () example_tree True [] ''out'' cancel_once example_host =
     example_host\<lparr>files := [''out/y'' \<mapsto> [0x20, 0x21]],
       dirs := {''out/'', ''out/A/'', ''out/A//''},
       trace := [MadePath ''out/'', Reported ''A/'' False, MadePath ''out/A//'',
                 Reported ''A/x'' True, Reported ''y'' False,
                 Opened ''out/y'' True, VolumeRead 0x20 2 True, Wrote ''out/y'' 2 True]\<rparr>"
  by (simp add: ExportDirectory_eq example_tree_def loop_Cons loop_Nil entry_name_def
      cancel_once_def export_small_file example_readable chunk_cap_def y_bytes
      log_event_def CreateFullPath_def example_host_def insert_commute)

lemma run_cancel_once_again:
  "ExportDirectory example_volume () example_tree True [] ''out'' cancel_once
     (example_host\<lparr>files := [''out/y'' \<mapsto> [0x20, 0x21]],
       dirs := {''out/'', ''out/A/'', ''out/A//''},
       trace := [MadePath ''out/'', Reported ''A/'' False, MadePath ''out/A//'',
                 Reported ''A/x'' True, Reported ''y'' False,
                 Opened ''out/y'' True, VolumeRead 0x20 2 True, Wrote ''out/y'' 2 True]\<rparr>) =
     example_host\<lparr>files := [''out/y'' \<mapsto> [0x20, 0x21], ''out/A//x'' \<mapsto> [0x10, 0x11]],
       dirs := {''out/'', ''out/A/'', ''out/A//''},
       trace := [MadePath ''out/'', Reported ''A/'' False, MadePath ''out/A//'',
                 Reported ''A/x'' True, Reported ''y'' False,
                 Opened ''out/y'' True, VolumeRead 0x20 2 True, Wrote ''out/y'' 2 True,
                 MadePath ''out/'', Reported ''A/'' False, MadePath ''out/A//'',
                 Reported ''A/x'' False,
                 Opened ''out/A//x'' True, VolumeRead 0x10 2 True, Wrote ''out/A//x'' 2 True,
                 Reported ''y'' False, NoticeLog ''out/y already exists'']\<rparr>"
  by (simp add: ExportDirectory_eq example_tree_def loop_Cons loop_Nil entry_name_def
      cancel_once_def export_small_file skip_existing_file example_readable chunk_cap_def x_bytes
      log_event_def CreateFullPath_def example_host_def insert_commute)

text \<open>
  C6 as stated fails after a cancelled run. On the tree with the subdirectory \<open>A\<close>
  (holding \<open>x\<close>) followed by the file \<open>y\<close>, a run cancelled at \<open>A/x\<close> leaves no file at
  \<open>out/A//x\<close>; the same export run again on that output, with a callback that does not
  cancel, writes it. The same happens with one callback used for both runs that answers
  true at \<open>A/x\<close> only as long as it has not answered true before.
\<close>

theorem ExportDirectory_rerun_counterexample:
  "cancelled (new_events example_host
     (ExportDirectory example_volume () example_tree True [] ''out'' cancel_at_x example_host)) \<and>
   files (ExportDirectory example_volume () example_tree True [] ''out'' cancel_at_x example_host)
     ''out/A//x'' = None \<and>
   files (ExportDirectory example_volume () example_tree True [] ''out'' never_cancel
            (ExportDirectory example_volume () example_tree True [] ''out'' cancel_at_x example_host))
     ''out/A//x'' = Some [0x10, 0x11] \<and>
   files (ExportDirectory example_volume () example_tree True [] ''out'' cancel_once example_host)
     ''out/A//x'' = None \<and>
   files (ExportDirectory example_volume () example_tree True [] ''out'' cancel_once
            (ExportDirectory example_volume () example_tree True [] ''out'' cancel_once example_host))
     ''out/A//x'' = Some [0x10, 0x11]"
  by (simp add: run_cancel_at_x run_after_cancel run_cancel_once run_cancel_once_again new_events_def)
    (simp add: example_host_def)

lemma run_busy_again:
  "ExportDirectory example_volume () example_tree True [] ''out'' never_cancel
     (busy_host\<lparr>files := [''out/y'' \<mapsto> [9], ''out/A//x'' \<mapsto> [0x10, 0x11]],
       dirs := {''out/'', ''out/A/'', ''out/A//''},
       trace := [MadePath ''out/'', Reported ''A/'' False, MadePath ''out/A//'',
                 Reported ''A/x'' False,
                 Opened ''out/A//x'' True, VolumeRead 0x10 2 True, Wrote ''out/A//x'' 2 True,
                 Reported ''y'' False, NoticeLog ''out/y already exists'']\<rparr>) =
     busy_host\<lparr>files := [''out/y'' \<mapsto> [9], ''out/A//x'' \<mapsto> [0x10, 0x11]],
       dirs := {''out/'', ''out/A/'', ''out/A//''},
       trace := [MadePath ''out/'', Reported ''A/'' False, MadePath ''out/A//'',
                 Reported ''A/x'' False,
                 Opened ''out/A//x'' True, VolumeRead 0x10 2 True, Wrote ''out/A//x'' 2 True,
                 Reported ''y'' False, NoticeLog ''out/y already exists'',
                 MadePath ''out/'', Reported ''A/'' False, MadePath ''out/A//'',
                 Reported ''A/x'' False, NoticeLog ''out/A//x already exists'',
                 Reported ''y'' False, NoticeLog ''out/y already exists'']\<rparr>"
  by (simp add: ExportDirectory_eq example_tree_def loop_Cons loop_Nil entry_name_def
      never_cancel_def skip_existing_file
      log_event_def CreateFullPath_def busy_host_def insert_commute)

lemma example_walk:
  "walk True [] ''out'' example_tree
     = [(''A/'', ''out/A/'', True), (''A/x'', ''out/A//x'', False), (''y'', ''out/y'', False)]"
  by (simp add: example_tree_def entry_name_def)

theorem ExportDirectory_no_overwrite_witness:
  "files busy_host ''out/y'' = Some [9] \<and>
   files (ExportDirectory example_volume () example_tree True [] ''out'' never_cancel busy_host)
     ''out/y'' = Some [9] \<and>
   \<not> never_cancel (trace busy_host) ''y'' \<and>
   ExportDirectory_loop example_volume () [FileInfo ''y'' 0x20 2 False []] True [] ''out''
       never_cancel busy_host
     = log_event (NoticeLog ''out/y already exists'') (log_event (Reported ''y'' False) busy_host) \<and>
   list_all (\<lambda>(p, ep, d). d \<or>
       files (ExportDirectory example_volume () example_tree True [] ''out'' never_cancel busy_host)
         ep \<noteq> None)
     (walk True [] ''out'' example_tree) \<and>
   files (ExportDirectory example_volume () example_tree True [] ''out'' never_cancel
            (ExportDirectory example_volume () example_tree True [] ''out'' never_cancel busy_host))
     = files (ExportDirectory example_volume () example_tree True [] ''out'' never_cancel busy_host) \<and>
   new_events
       (ExportDirectory example_volume () example_tree True [] ''out'' never_cancel busy_host)
       (ExportDirectory example_volume () example_tree True [] ''out'' never_cancel
          (ExportDirectory example_volume () example_tree True [] ''out'' never_cancel busy_host))
     = [MadePath ''out/'', Reported ''A/'' False, MadePath ''out/A//'',
        Reported ''A/x'' False, NoticeLog ''out/A//x already exists'',
        Reported ''y'' False, NoticeLog ''out/y already exists''] \<and>
   \<not> cancelled (new_events busy_host
       (ExportDirectory example_volume () example_tree True [] ''out'' never_cancel busy_host)) \<and>
   reports (new_events busy_host
       (ExportDirectory example_volume () example_tree True [] ''out'' never_cancel busy_host))
     = [(''A/'', False), (''A/x'', False), (''y'', False)] \<and>
   files (ExportDirectory example_volume () example_tree True [] ''out'' cancel_at_x
            (ExportDirectory example_volume () example_tree True [] ''out'' never_cancel busy_host))
     = files (ExportDirectory example_volume () example_tree True [] ''out'' never_cancel busy_host)"
proof -
  let ?y = "FileInfo ''y'' 0x20 2 False []"
  let ?h1 = "ExportDirectory example_volume () example_tree True [] ''out'' never_cancel busy_host"
  let ?h2 = "ExportDirectory example_volume () example_tree True [] ''out'' never_cancel ?h1"
  have a: "files busy_host ''out/y'' = Some [9]" by (simp add: busy_host_def)
  have n: "new_events busy_host ?h1
      = [MadePath ''out/'', Reported ''A/'' False, MadePath ''out/A//'',
         Reported ''A/x'' False,
         Opened ''out/A//x'' True, VolumeRead 0x10 2 True, Wrote ''out/A//x'' 2 True,
         Reported ''y'' False, NoticeLog ''out/y already exists'']"
    by (simp add: run_busy new_events_def) (simp add: busy_host_def)
  have nc: "\<not> cancelled (new_events busy_host ?h1)" unfolding n by simp
  note spec = ExportDirectory_no_overwrite [where h = busy_host and volume = example_volume
      and part = "()" and directory = example_tree and recursive = True
      and filesystem_path = "[]" and export_folder = "''out''" and update_progress = never_cancel
      and file_info = ?y and rest = "[]"]
  from spec a have b: "files ?h1 ''out/y'' = Some [9]" by blast
  have en: "entry_name ?y = ''y''" by (simp add: entry_name_def)
  have u: "\<not> never_cancel (trace busy_host) ''y''" by (simp add: never_cancel_def)
  have "\<not> never_cancel (trace busy_host) ([] @ entry_name ?y) \<and> \<not> IsDirectory ?y \<and>
      files busy_host (''out'' @ ''/'' @ entry_name ?y) \<noteq> None"
    using a u by (simp add: en)
  with spec have "ExportDirectory_loop example_volume () [?y] True [] ''out'' never_cancel busy_host
      = ExportDirectory_loop example_volume () [] True [] ''out'' never_cancel
          (log_event (NoticeLog (''out'' @ ''/'' @ entry_name ?y @ '' already exists''))
             (log_event (Reported ([] @ entry_name ?y) False) busy_host))"
    by blast
  then have s: "ExportDirectory_loop example_volume () [?y] True [] ''out'' never_cancel busy_host
      = log_event (NoticeLog ''out/y already exists'') (log_event (Reported ''y'' False) busy_host)"
    by (simp add: en loop_Nil)
  from spec nc have r: "reports (new_events busy_host ?h1)
      = map (\<lambda>(p, ep, d). (p, False)) (walk True [] ''out'' example_tree)"
    and again: "files (ExportDirectory example_volume () example_tree True [] ''out'' cancel_at_x ?h1)
      = files ?h1"
    by blast+
  have ex: "list_all (\<lambda>(p, ep, d). d \<or> files ?h1 ep \<noteq> None) (walk True [] ''out'' example_tree)"
    by (simp add: example_walk run_busy)
  then have all: "\<forall>(p, ep, d) \<in> set (walk True [] ''out'' example_tree). \<not> d \<longrightarrow> files ?h1 ep \<noteq> None"
    by (auto simp: list_all_iff)
  have n2: "new_events ?h1 ?h2
      = [MadePath ''out/'', Reported ''A/'' False, MadePath ''out/A//'',
         Reported ''A/x'' False, NoticeLog ''out/A//x already exists'',
         Reported ''y'' False, NoticeLog ''out/y already exists'']"
    by (simp add: run_busy run_busy_again new_events_def)
  have nc2: "\<not> cancelled (new_events ?h1 ?h2)" unfolding n2 by simp
  note rerun = ExportDirectory_no_overwrite [where h = ?h1 and volume = example_volume
      and part = "()" and directory = example_tree and recursive = True
      and filesystem_path = "[]" and export_folder = "''out''" and update_progress = never_cancel]
  from rerun all have same: "files ?h2 = files ?h1"
    and "\<not> cancelled (new_events ?h1 ?h2) \<longrightarrow>
      new_events ?h1 ?h2 = MadePath (''out'' @ ''/'') #
        rerun_events True (walk True [] ''out'' example_tree)"
    by blast+
  with nc2 have "new_events ?h1 ?h2 = MadePath (''out'' @ ''/'') #
        rerun_events True (walk True [] ''out'' example_tree)"
    by blast
  then have ev: "new_events ?h1 ?h2
      = [MadePath ''out/'', Reported ''A/'' False, MadePath ''out/A//'',
         Reported ''A/x'' False, NoticeLog ''out/A//x already exists'',
         Reported ''y'' False, NoticeLog ''out/y already exists'']"
    by (simp add: example_walk)
  from a b u s ex same ev nc r again show ?thesis by (simp only: example_walk list.map prod.case simp_thms)
qed

theorem ExportDirectory_not_recursive_witness:
  "dirs (ExportDirectory example_volume () example_tree False [] ''out'' never_cancel example_host)
     = {''out/''} \<and>
   made_paths (new_events example_host
       (ExportDirectory example_volume () example_tree False [] ''out'' never_cancel example_host))
     = [''out/''] \<and>
   files (ExportDirectory example_volume () example_tree False [] ''out'' never_cancel example_host)
       ''out/y'' = Some [0x20, 0x21] \<and>
   files example_host ''out/y'' = None \<and>
   files (ExportDirectory example_volume () example_tree False [] ''out'' never_cancel example_host)
       ''out/A//x'' = None \<and>
   reports (new_events example_host
       (ExportDirectory example_volume () example_tree False [] ''out'' never_cancel example_host))
     = [(''A/'', False), (''y'', False)]"
proof -
  let ?h1 = "ExportDirectory example_volume () example_tree False [] ''out'' never_cancel example_host"
  note thm7 = ExportDirectory_not_recursive [where h = example_host and volume = example_volume
      and part = "()" and directory = example_tree
      and filesystem_path = "[]" and export_folder = "''out''" and update_progress = never_cancel]
  have e: "files example_host q = None" for q
    by (simp add: example_host_def)
  have e2: "dirs example_host = {}"
    by (simp add: example_host_def)
  from thm7 have "dirs ?h1 = dirs example_host \<union> set (sub_paths [] (''out'' @ ''/''))"
    by (rule conjunct1)
  then have d: "dirs ?h1 = {''out/''}" by (simp add: e2)
  from thm7 have "made_paths (new_events example_host ?h1) = [''out'' @ ''/'']"
    by (rule conjunct2 [THEN conjunct1])
  then have m: "made_paths (new_events example_host ?h1) = [''out/'']" by simp
  from thm7 have frame: "\<forall>q. files ?h1 q \<noteq> files example_host q \<longrightarrow>
      q \<in> (\<lambda>f. ''out'' @ ''/'' @ GetName f) ` {f \<in> set (children example_tree). \<not> IsDirectory f}"
    by (rule conjunct2 [THEN conjunct2, THEN conjunct2])
  have img: "(\<lambda>f. ''out'' @ ''/'' @ GetName f) ` {f \<in> set (children example_tree). \<not> IsDirectory f}
      = {''out/y''}"
  proof -
    have "{f \<in> set (children example_tree). \<not> IsDirectory f} = {FileInfo ''y'' 0x20 2 False []}"
      by (auto simp: example_tree_def)
    then show ?thesis by simp
  qed
  have "files ?h1 ''out/A//x'' = files example_host ''out/A//x''"
  proof (rule ccontr)
    assume "files ?h1 ''out/A//x'' \<noteq> files example_host ''out/A//x''"
    moreover from frame have "files ?h1 ''out/A//x'' \<noteq> files example_host ''out/A//x'' \<longrightarrow>
        ''out/A//x'' \<in> {''out/y''}"
      unfolding img by (rule spec)
    ultimately have "''out/A//x'' \<in> {''out/y''}" by (rule rev_mp)
    then show False by simp
  qed
  then have x: "files ?h1 ''out/A//x'' = None" by (simp only: e)
  have y: "files ?h1 ''out/y'' = Some [0x20, 0x21]" by (simp add: run_not_recursive)
  have r: "reports (new_events example_host ?h1) = [(''A/'', False), (''y'', False)]"
    by (simp add: run_not_recursive new_events_def) (simp add: example_host_def)
  from d m x y r e [of "''out/y''"] show ?thesis by (simp only: simp_thms)
qed

end
